theory Spec2Isabelle
  imports Main
begin

section \<open>Python values used by ai-powered-fix.py\<close>

text \<open>
  The script is Python 3.  Its integers are unbounded (\<open>int\<close>), its strings are
  modelled as \<open>string\<close>; the character classes below are the ASCII part of Python's
  classes, so the model speaks about ASCII text.  Every exception the script can meet
  is a value of \<open>py_error\<close>; all of them are subclasses of Python's \<open>Exception\<close>.
\<close>

datatype py_error =
    OSError string          \<comment> \<open>\<open>open\<close> or a read failed on this path\<close>
  | IndexError              \<comment> \<open>list index out of range\<close>
  | ServiceError string     \<comment> \<open>any exception raised by the text-generation call\<close>

abbreviation NL :: char where
  "NL \<equiv> CHR 0x0A"

text \<open>\<open>str.isspace\<close> on ASCII: TAB, LF, VT, FF, CR, the separators 0x1C-0x1F, and space.\<close>

definition is_space :: "char \<Rightarrow> bool" where
  "is_space c = (let n = (of_char c :: nat) in (9 \<le> n \<and> n \<le> 13) \<or> (28 \<le> n \<and> n \<le> 32))"

text \<open>The class \<open>\w\<close> on ASCII: letters, digits and the underscore.\<close>

definition is_word :: "char \<Rightarrow> bool" where
  "is_word c = (let n = (of_char c :: nat) in
     (48 \<le> n \<and> n \<le> 57) \<or> (65 \<le> n \<and> n \<le> 90) \<or> n = 95 \<or> (97 \<le> n \<and> n \<le> 122))"

text \<open>\<open>s.strip()\<close>: whitespace removed at both ends.\<close>

definition strip :: "string \<Rightarrow> string" where
  "strip s = rev (dropWhile is_space (rev (dropWhile is_space s)))"

text \<open>\<open>s.startswith(p)\<close>, \<open>s.endswith(p)\<close> and the substring test \<open>p in s\<close>.\<close>

fun startswith :: "string \<Rightarrow> string \<Rightarrow> bool" where
  "startswith s [] = True"
| "startswith [] (p # ps) = False"
| "startswith (c # cs) (p # ps) = (c = p \<and> startswith cs ps)"

definition endswith :: "string \<Rightarrow> string \<Rightarrow> bool" where
  "endswith s p = startswith (rev s) (rev p)"

fun str_in :: "string \<Rightarrow> string \<Rightarrow> bool" where
  "str_in p [] = (p = [])"
| "str_in p (c # cs) = (startswith (c # cs) p \<or> str_in p cs)"

text \<open>
  \<open>f.readlines()\<close> on the text of a file: the text is cut after every newline and every
  line keeps its newline; a last line without one is kept as it is.  The accumulator is
  the line read so far.
\<close>

fun readlines_from :: "string \<Rightarrow> string \<Rightarrow> string list" where
  "readlines_from acc [] = (if acc = [] then [] else [acc])"
| "readlines_from acc (c # cs) =
     (if c = NL then (acc @ [c]) # readlines_from [] cs else readlines_from (acc @ [c]) cs)"

definition readlines :: "string \<Rightarrow> string list" where
  "readlines text = readlines_from [] text"

text \<open>\<open>content.split('\n')\<close>: the separators are dropped, and there is always a last field.\<close>

fun split_from :: "string \<Rightarrow> string \<Rightarrow> string list" where
  "split_from acc [] = [acc]"
| "split_from acc (c # cs) =
     (if c = NL then acc # split_from [] cs else split_from (acc @ [c]) cs)"

definition split_nl :: "string \<Rightarrow> string list" where
  "split_nl text = split_from [] text"

text \<open>
  \<open>xs[i]\<close>: a negative index counts from the end, an index out of range raises
  \<open>IndexError\<close>.  \<open>xs[a:b]\<close>: negative bounds count from the end, and both bounds are
  clipped to the list, so a slice never raises.
\<close>

definition py_index :: "'a list \<Rightarrow> int \<Rightarrow> py_error + 'a" where
  "py_index xs i =
     (if 0 \<le> i \<and> i < int (length xs) then Inr (xs ! nat i)
      else if i < 0 \<and> - int (length xs) \<le> i then Inr (xs ! nat (int (length xs) + i))
      else Inl IndexError)"

definition clip_bound :: "int \<Rightarrow> int \<Rightarrow> nat" where
  "clip_bound n i = nat (if i < 0 then max 0 (n + i) else min i n)"

definition py_slice :: "'a list \<Rightarrow> int \<Rightarrow> int \<Rightarrow> 'a list" where
  "py_slice xs a b =
     (let n = int (length xs) in drop (clip_bound n a) (take (clip_bound n b) xs))"

section \<open>Regular expressions\<close>

text \<open>
  The patterns of the script use literals, the dot (any character but a newline),
  \<open>\s\<close>, \<open>\w\<close>, sequence, alternation, \<open>*\<close> and \<open>+\<close>.  \<open>re.match\<close> asks whether a
  prefix of the string is in the language of the pattern, \<open>re.search\<close> whether a segment
  of it is; both are decided with derivatives.
\<close>

datatype rexp =
    Zero
  | Eps
  | Lit char
  | Dot
  | Space
  | Word
  | Seq rexp rexp
  | Alt rexp rexp
  | Star rexp

definition Plus :: "rexp \<Rightarrow> rexp" where
  "Plus r = Seq r (Star r)"

fun lit :: "string \<Rightarrow> rexp" where
  "lit [] = Eps"
| "lit (c # cs) = Seq (Lit c) (lit cs)"

fun seqs :: "rexp list \<Rightarrow> rexp" where
  "seqs [] = Eps"
| "seqs (r # rs) = Seq r (seqs rs)"

fun nullable :: "rexp \<Rightarrow> bool" where
  "nullable Zero = False"
| "nullable Eps = True"
| "nullable (Lit c) = False"
| "nullable Dot = False"
| "nullable Space = False"
| "nullable Word = False"
| "nullable (Seq r s) = (nullable r \<and> nullable s)"
| "nullable (Alt r s) = (nullable r \<or> nullable s)"
| "nullable (Star r) = True"

fun deriv :: "char \<Rightarrow> rexp \<Rightarrow> rexp" where
  "deriv c Zero = Zero"
| "deriv c Eps = Zero"
| "deriv c (Lit d) = (if c = d then Eps else Zero)"
| "deriv c Dot = (if c = NL then Zero else Eps)"
| "deriv c Space = (if is_space c then Eps else Zero)"
| "deriv c Word = (if is_word c then Eps else Zero)"
| "deriv c (Seq r s) =
     (if nullable r then Alt (Seq (deriv c r) s) (deriv c s) else Seq (deriv c r) s)"
| "deriv c (Alt r s) = Alt (deriv c r) (deriv c s)"
| "deriv c (Star r) = Seq (deriv c r) (Star r)"

fun re_match :: "rexp \<Rightarrow> string \<Rightarrow> bool" where
  "re_match r [] = nullable r"
| "re_match r (c # cs) = (nullable r \<or> re_match (deriv c r) cs)"

fun re_search :: "rexp \<Rightarrow> string \<Rightarrow> bool" where
  "re_search r [] = nullable r"
| "re_search r (c # cs) = (re_match r (c # cs) \<or> re_search r cs)"

section \<open>The context extractor\<close>

text \<open>
  The three declaration patterns of \<open>extract_function_name\<close>, each tried with
  \<open>re.match\<close> (anchored at the start of the line):
  \<^verbatim>\<open>^\s*\w+\s+\w+::\w+\s*\(\<close>, \<^verbatim>\<open>^\s*function\s+\w+\s*\(\<close> and
  \<^verbatim>\<open>^\s*async\s+function\s+\w+\s*\(\<close>.
\<close>

definition method_decl :: rexp where
  "method_decl = seqs [Star Space, Plus Word, Plus Space, Plus Word, lit ''::'', Plus Word,
     Star Space, Lit (CHR ''('')]"

definition function_decl :: rexp where
  "function_decl = seqs [Star Space, lit ''function'', Plus Space, Plus Word, Star Space,
     Lit (CHR ''('')]"

definition async_decl :: rexp where
  "async_decl = seqs [Star Space, lit ''async'', Plus Space, lit ''function'', Plus Space,
     Plus Word, Star Space, Lit (CHR ''('')]"

definition is_declaration :: "string \<Rightarrow> bool" where
  "is_declaration l =
     (re_match method_decl l \<or> re_match function_decl l \<or> re_match async_decl l)"

text \<open>
  The loop \<open>for i in range(line_num - 1, max(0, line_num - 50), -1)\<close>: \<open>i\<close> runs
  downwards and the stop value is excluded.  \<open>scan_back lines i stop\<close> is the loop from
  index \<open>i\<close> on; reading \<open>lines[i]\<close> raises when \<open>i\<close> is out of range.
\<close>

function scan_back :: "string list \<Rightarrow> int \<Rightarrow> int \<Rightarrow> py_error + string" where
  "scan_back lines i stop =
     (if stop < i then
        (case py_index lines i of
           Inl e \<Rightarrow> Inl e
         | Inr l \<Rightarrow> if is_declaration l then Inr (strip l) else scan_back lines (i - 1) stop)
      else Inr ''Unknown function'')"
  by pat_completeness auto
termination
  by (relation "measure (\<lambda>(lines, i, stop). nat (i - stop))") auto

declare scan_back.simps [simp del]

definition extract_function_name :: "string list \<Rightarrow> int \<Rightarrow> py_error + string" where
  "extract_function_name lines line_num = scan_back lines (line_num - 1) (max 0 (line_num - 50))"

record code_context =
  ctx_file :: string
  ctx_line :: int
  ctx_context :: string
  ctx_function :: string
  ctx_violation_line :: string

text \<open>
  The disk maps a path to the text that \<open>read\<close> returns for it; a path that cannot be
  opened or read has no text.  \<open>context_window\<close> is the slice \<open>lines[start:end]\<close>
  of \<open>analyze_code_context\<close>; the dictionary it returns is built in the order
  context, function, violation line, so an exception of an earlier entry wins.
\<close>

type_synonym disk = "string \<Rightarrow> string option"

definition context_window :: "string list \<Rightarrow> int \<Rightarrow> string list" where
  "context_window lines line_num =
     (let start = max 0 (line_num - 20);
          end' = min (int (length lines)) (line_num + 20)
      in py_slice lines start end')"

definition analyze_code_context :: "disk \<Rightarrow> string \<Rightarrow> int \<Rightarrow> py_error + code_context" where
  "analyze_code_context d filepath line_num =
     (case d filepath of
        None \<Rightarrow> Inl (OSError filepath)
      | Some text \<Rightarrow>
          (let lines = readlines text in
           case extract_function_name lines line_num of
             Inl e \<Rightarrow> Inl e
           | Inr fname \<Rightarrow>
               (case py_index lines (line_num - 1) of
                  Inl e \<Rightarrow> Inl e
                | Inr l \<Rightarrow>
                    Inr \<lparr>ctx_file = filepath, ctx_line = line_num,
                         ctx_context = concat (context_window lines line_num),
                         ctx_function = fname, ctx_violation_line = strip l\<rparr>)))"

section \<open>The scanner\<close>

record violation =
  v_file :: string
  v_line :: int
  v_type :: string
  v_content :: string

text \<open>
  The ordered rules of \<open>find_violations\<close>, each tried with \<open>re.search\<close>:
  \<^verbatim>\<open>return\s+0\.5f\s*;.*placeholder\<close>,
  \<^verbatim>\<open>throw\s+.*Error.*not implemented\<close>,
  \<^verbatim>\<open>return\s+"(Contemporary|Neutral|2010s)"\<close>,
  \<^verbatim>\<open>//\s*(TODO|FIXME|HACK):\<close>,
  \<^verbatim>\<open>simplified|Simplified|SIMPLIFIED\<close> and
  \<^verbatim>\<open>Math\.random\(\)\<close>.
\<close>

definition patterns :: "(rexp \<times> string) list" where
  "patterns =
     [(seqs [lit ''return'', Plus Space, lit ''0.5f'', Star Space, Lit (CHR '';''), Star Dot,
             lit ''placeholder''], ''hardcoded_placeholder''),
      (seqs [lit ''throw'', Plus Space, Star Dot, lit ''Error'', Star Dot,
             lit ''not implemented''], ''not_implemented_error''),
      (seqs [lit ''return'', Plus Space, Lit (CHR 0x22),
             Alt (lit ''Contemporary'') (Alt (lit ''Neutral'') (lit ''2010s'')),
             Lit (CHR 0x22)], ''hardcoded_string''),
      (seqs [lit ''//'', Star Space, Alt (lit ''TODO'') (Alt (lit ''FIXME'') (lit ''HACK'')),
             Lit (CHR '':'')], ''todo_comment''),
      (Alt (lit ''simplified'') (Alt (lit ''Simplified'') (lit ''SIMPLIFIED'')),
       ''simplified_implementation''),
      (lit ''Math.random()'', ''random_data_generation'')]"

text \<open>The inner loop over the rules, for line \<open>i\<close> (counted from 0) of a file.\<close>

fun match_rules :: "string \<Rightarrow> nat \<Rightarrow> string \<Rightarrow> (rexp \<times> string) list \<Rightarrow> violation list" where
  "match_rules filepath i line [] = []"
| "match_rules filepath i line ((pattern, vtype) # rules) =
     (if re_search pattern line
      then \<lparr>v_file = filepath, v_line = int i + 1, v_type = vtype, v_content = strip line\<rparr>
             # match_rules filepath i line rules
      else match_rules filepath i line rules)"

text \<open>The loop \<open>for i, line in enumerate(lines)\<close>, from index \<open>i\<close> on.\<close>

fun scan_lines :: "string \<Rightarrow> nat \<Rightarrow> string list \<Rightarrow> violation list" where
  "scan_lines filepath i [] = []"
| "scan_lines filepath i (line # rest) =
     match_rules filepath i line patterns @ scan_lines filepath (Suc i) rest"

text \<open>\<open>os.path.join(root, file)\<close> on a POSIX system.\<close>

definition path_join :: "string \<Rightarrow> string \<Rightarrow> string" where
  "path_join a b =
     (if startswith b ''/'' then b
      else if a = [] \<or> endswith a ''/'' then a @ b
      else a @ ''/'' @ b)"

definition skipped_root :: "string \<Rightarrow> bool" where
  "skipped_root root = (str_in ''node_modules'' root \<or> str_in ''.git'' root \<or> str_in ''build'' root)"

definition source_file :: "string \<Rightarrow> bool" where
  "source_file file =
     (endswith file ''.cpp'' \<or> endswith file ''.h'' \<or> endswith file ''.js'' \<or> endswith file ''.ts'')"

text \<open>
  The loop over the files of one directory.  Opening or reading a file is not guarded:
  the exception leaves \<open>find_violations\<close> and the violations found so far are lost.
\<close>

fun scan_files :: "disk \<Rightarrow> string \<Rightarrow> string list \<Rightarrow> py_error + violation list" where
  "scan_files d root [] = Inr []"
| "scan_files d root (file # files) =
     (if source_file file then
        (case d (path_join root file) of
           None \<Rightarrow> Inl (OSError (path_join root file))
         | Some text \<Rightarrow>
             (case scan_files d root files of
                Inl e \<Rightarrow> Inl e
              | Inr vs \<Rightarrow> Inr (scan_lines (path_join root file) 0 (readlines text) @ vs)))
      else scan_files d root files)"

text \<open>
  \<open>os.walk(directory)\<close> is a library call; its result, the list of
  \<open>(root, dirs, files)\<close> triples in traversal order, is taken as given.
\<close>

type_synonym walk = "(string \<times> string list \<times> string list) list"

fun find_violations :: "disk \<Rightarrow> walk \<Rightarrow> py_error + violation list" where
  "find_violations d [] = Inr []"
| "find_violations d ((root, dirs, files) # rest) =
     (if skipped_root root then find_violations d rest
      else
        (case scan_files d root files of
           Inl e \<Rightarrow> Inl e
         | Inr vs \<Rightarrow>
             (case find_violations d rest of
                Inl e \<Rightarrow> Inl e
              | Inr ws \<Rightarrow> Inr (vs @ ws))))"

section \<open>The fix generator and the fix recorder\<close>

record fix_rec =
  f_file :: string
  f_line :: int
  f_original :: string
  f_fixed :: string

text \<open>
  What the script prints.  Console output is narration only, so a printed line is kept
  as an event with its values, not as text.
\<close>

datatype console_line =
    MissingKey                  \<comment> \<open>\<open>Error: ANTHROPIC_API_KEY environment variable not set\<close>\<close>
  | ScanStart                   \<comment> \<open>\<open>Scanning for mock code violations...\<close>\<close>
  | FoundCount nat              \<comment> \<open>\<open>Found n violations\<close>\<close>
  | Processing nat nat          \<comment> \<open>\<open>Processing violation i+1/min(max_fixes, n)\<close>\<close>
  | FileLine string int         \<comment> \<open>\<open>File: file:line\<close>\<close>
  | TypeLine string             \<comment> \<open>\<open>Type: type\<close>\<close>
  | Generating                  \<comment> \<open>\<open>Generating fix with AI...\<close>\<close>
  | FixOk                       \<comment> \<open>\<open>Fix generated successfully\<close>\<close>
  | FixError py_error           \<comment> \<open>\<open>Error generating fix: e\<close>\<close>
  | Completed nat               \<comment> \<open>\<open>Completed! Applied n fixes\<close>\<close>
  | ReportsGenerated            \<comment> \<open>\<open>Reports generated: ai_fix_report.json, pr_description.md\<close>\<close>

text \<open>
  The state a run works on: the files on disk, the two lists of the \<open>AICodeFixer\<close>
  object, the console, and the prompts sent to the text-generation service so far.
\<close>

record world =
  w_disk :: disk
  self_violations :: "violation list"
  self_fixes :: "fix_rec list"
  console :: "console_line list"
  requests :: "string list"

definition say :: "console_line list \<Rightarrow> world \<Rightarrow> world" where
  "say ls w = w\<lparr>console := console w @ ls\<rparr>"

text \<open>The prompt of \<open>generate_fix_with_ai\<close>, an f-string over four entries of the context.\<close>

definition prompt_of :: "code_context \<Rightarrow> string" where
  "prompt_of ctx =
     ''You are fixing placeholder/mock code in a music analysis application.'' @ [NL, NL] @
     ''File: '' @ ctx_file ctx @ [NL] @
     ''Function: '' @ ctx_function ctx @ [NL] @
     ''Violation: '' @ ctx_violation_line ctx @ [NL, NL] @
     ''Context:'' @ [NL] @
     replicate 3 (CHR 0x60) @ [NL] @
     ctx_context ctx @ [NL] @
     replicate 3 (CHR 0x60) @ [NL, NL] @
     ''The current implementation is a placeholder that returns a hardcoded value or throws an error.'' @ [NL] @
     ''Generate a REAL implementation that:'' @ [NL] @
     ''1. Performs actual calculations based on the input data'' @ [NL] @
     ''2. Uses proper algorithms for music analysis'' @ [NL] @
     ''3. Returns meaningful results, not hardcoded values'' @ [NL] @
     ''4. Is production-ready code'' @ [NL, NL] @
     ''Provide ONLY the fixed function implementation, no explanations.''"

text \<open>
  The text-generation service is outside the program: \<open>service k p\<close> is what the call
  number \<open>k\<close> of the run (counted from 0), made with prompt \<open>p\<close>, returns or raises.
\<close>

type_synonym service = "nat \<Rightarrow> string \<Rightarrow> py_error + string"

definition generate_fix_with_ai :: "service \<Rightarrow> code_context \<Rightarrow> world \<Rightarrow> (py_error + string) \<times> world" where
  "generate_fix_with_ai sv ctx w =
     (sv (length (requests w)) (prompt_of ctx), w\<lparr>requests := requests w @ [prompt_of ctx]\<rparr>)"

text \<open>
  \<open>apply_fix\<close> opens the file for reading only, takes the original line from
  \<open>content.split('\n')\<close>, appends the record to \<open>self.fixes\<close> and returns \<open>True\<close>.
\<close>

definition apply_fix :: "string \<Rightarrow> int \<Rightarrow> string \<Rightarrow> world \<Rightarrow> (py_error + bool) \<times> world" where
  "apply_fix filepath line_num new_implementation w =
     (case w_disk w filepath of
        None \<Rightarrow> (Inl (OSError filepath), w)
      | Some content \<Rightarrow>
          (case py_index (split_nl content) (line_num - 1) of
             Inl e \<Rightarrow> (Inl e, w)
           | Inr original \<Rightarrow>
               (Inr True,
                w\<lparr>self_fixes := self_fixes w @
                     [\<lparr>f_file = filepath, f_line = line_num, f_original = original,
                       f_fixed = new_implementation\<rparr>]\<rparr>)))"

section \<open>The report builder\<close>

fun str_nat :: "nat \<Rightarrow> string" where
  "str_nat n = (if n < 10 then [char_of (48 + n)] else str_nat (n div 10) @ [char_of (48 + n mod 10)])"

definition str_int :: "int \<Rightarrow> string" where
  "str_int i = (if i < 0 then CHR ''-'' # str_nat (nat (- i)) else str_nat (nat i))"

text \<open>The pictographs of the description, as the UTF-8 bytes of the written file.\<close>

definition robot :: string where
  "robot = [CHR 0xF0, CHR 0x9F, CHR 0xA4, CHR 0x96]"

definition bar_chart :: string where
  "bar_chart = [CHR 0xF0, CHR 0x9F, CHR 0x93, CHR 0x8A]"

definition wrench :: string where
  "wrench = [CHR 0xF0, CHR 0x9F, CHR 0x94, CHR 0xA7]"

definition warning_sign :: string where
  "warning_sign = [CHR 0xE2, CHR 0x9A, CHR 0xA0, CHR 0xEF, CHR 0xB8, CHR 0x8F]"

text \<open>
  \<open>fixes_by_file\<close> is a dictionary filled in the order of the fixes; a dictionary keeps
  its keys in the order of their first insertion.
\<close>

fun add_fix :: "fix_rec \<Rightarrow> (string \<times> fix_rec list) list \<Rightarrow> (string \<times> fix_rec list) list" where
  "add_fix f [] = [(f_file f, [f])]"
| "add_fix f ((k, fs) # rest) =
     (if k = f_file f then (k, fs @ [f]) # rest else (k, fs) # add_fix f rest)"

definition fixes_by_file :: "fix_rec list \<Rightarrow> (string \<times> fix_rec list) list" where
  "fixes_by_file fs = foldl (\<lambda>m f. add_fix f m) [] fs"

definition fix_line :: "fix_rec \<Rightarrow> string" where
  "fix_line f = ''- Line '' @ str_int (f_line f) @ '': Replaced placeholder with real implementation'' @ [NL]"

definition file_section :: "string \<times> fix_rec list \<Rightarrow> string" where
  "file_section e =
     ''### '' @ [CHR 0x60] @ fst e @ [CHR 0x60] @ [NL, NL] @ concat (map fix_line (snd e)) @ [NL]"

definition generate_pr_description :: "world \<Rightarrow> string" where
  "generate_pr_description w =
     ''# '' @ robot @ '' AI-Powered Mock Code Fixes'' @ [NL, NL] @
     ''This PR was automatically generated using AI to replace placeholder implementations with real code.'' @ [NL, NL] @
     ''## '' @ bar_chart @ '' Summary'' @ [NL] @
     ''- **Violations Found**: '' @ str_nat (length (self_violations w)) @ [NL] @
     ''- **Fixes Applied**: '' @ str_nat (length (self_fixes w)) @ [NL] @
     ''- **Files Modified**: '' @ str_nat (length (remdups (map f_file (self_fixes w)))) @ [NL, NL] @
     ''## '' @ wrench @ '' Changes Made'' @ [NL, NL] @
     concat (map file_section (fixes_by_file (self_fixes w))) @
     [NL] @ ''## '' @ warning_sign @ '' Review Required'' @ [NL, NL] @
     ''Please carefully review all changes before merging:'' @ [NL] @
     ''1. Verify the AI-generated implementations are correct'' @ [NL] @
     ''2. Run all tests to ensure nothing is broken'' @ [NL] @
     ''3. Check that the new code follows project standards'' @ [NL, NL] @
     ''## '' @ robot @ '' Generated by AI'' @ [NL, NL] @
     ''This code was generated by Claude AI based on the surrounding context and music analysis best practices.'' @ [NL]"

record report =
  violations_found :: nat
  fixes_applied :: nat
  rep_violations :: "violation list"
  rep_fixes :: "fix_rec list"

section \<open>The entry point\<close>

text \<open>
  The body of the loop of \<open>main\<close> for violation number \<open>i\<close> (from 0) of \<open>n\<close>
  processed ones.  The context is extracted outside the \<open>try\<close>; the call of the service
  and \<open>apply_fix\<close> are inside it, and \<open>except Exception\<close> prints the error and goes on.
\<close>

definition process_violation :: "service \<Rightarrow> nat \<Rightarrow> nat \<Rightarrow> violation \<Rightarrow> world \<Rightarrow> (py_error + unit) \<times> world" where
  "process_violation sv i n v w =
     (let w1 = say [Processing (i + 1) n, FileLine (v_file v) (v_line v), TypeLine (v_type v)] w in
      case analyze_code_context (w_disk w1) (v_file v) (v_line v) of
        Inl e \<Rightarrow> (Inl e, w1)
      | Inr ctx \<Rightarrow>
          (case generate_fix_with_ai sv ctx (say [Generating] w1) of
             (Inl e, w2) \<Rightarrow> (Inr (), say [FixError e] w2)
           | (Inr new_implementation, w2) \<Rightarrow>
               (case apply_fix (v_file v) (v_line v) new_implementation w2 of
                  (Inl e, w3) \<Rightarrow> (Inr (), say [FixError e] w3)
                | (Inr ok, w3) \<Rightarrow> (Inr (), say [FixOk] w3))))"

fun process_all :: "service \<Rightarrow> nat \<Rightarrow> nat \<Rightarrow> violation list \<Rightarrow> world \<Rightarrow> (py_error + unit) \<times> world" where
  "process_all sv i n [] w = (Inr (), w)"
| "process_all sv i n (v # vs) w =
     (case process_violation sv i n v w of
        (Inl e, w') \<Rightarrow> (Inl e, w')
      | (Inr u, w') \<Rightarrow> process_all sv (Suc i) n vs w')"

text \<open>
  How a run ends: \<open>sys.exit(n)\<close>, the end of \<open>main\<close>, or an exception nobody caught
  (the interpreter then prints the traceback and exits with code 1).
\<close>

datatype outcome = SysExit int | Returned | Raised py_error

fun exit_code :: "outcome \<Rightarrow> int" where
  "exit_code (SysExit n) = n"
| "exit_code Returned = 0"
| "exit_code (Raised e) = 1"

definition max_fixes :: nat where
  "max_fixes = 5"

text \<open>
  \<open>main\<close>, run with the environment \<open>env\<close>, the directory listing \<open>wk\<close> that
  \<open>os.walk('.')\<close> yields, the service \<open>sv\<close>, the serialiser \<open>json_dump\<close> of the
  library, and the disk \<open>d\<close>.  \<open>if not api_key\<close> holds for a missing key and for an
  empty one.  Building the client of the service and writing the two output files are
  taken to succeed.
\<close>

definition main :: "(string \<Rightarrow> string option) \<Rightarrow> walk \<Rightarrow> service \<Rightarrow> (report \<Rightarrow> string) \<Rightarrow> disk \<Rightarrow> outcome \<times> world" where
  "main env wk sv json_dump d =
     (let w0 = \<lparr>w_disk = d, self_violations = [], self_fixes = [], console = [], requests = []\<rparr> in
      case env ''ANTHROPIC_API_KEY'' of
        None \<Rightarrow> (SysExit 1, say [MissingKey] w0)
      | Some api_key \<Rightarrow>
          if api_key = [] then (SysExit 1, say [MissingKey] w0)
          else
            (let w1 = say [ScanStart] w0 in
             case find_violations (w_disk w1) wk of
               Inl e \<Rightarrow> (Raised e, w1)
             | Inr vs \<Rightarrow>
                 (case process_all sv 0 (min max_fixes (length vs)) (take max_fixes vs)
                         (say [FoundCount (length vs)] w1) of
                    (Inl e, w2) \<Rightarrow> (Raised e, w2)
                  | (Inr u, w2) \<Rightarrow>
                      (let rep = \<lparr>violations_found = length vs,
                                  fixes_applied = length (self_fixes w2),
                                  rep_violations = vs, rep_fixes = self_fixes w2\<rparr>;
                           w3 = w2\<lparr>w_disk := (w_disk w2)(''ai_fix_report.json'' \<mapsto> json_dump rep)\<rparr>;
                           w4 = w3\<lparr>w_disk := (w_disk w3)(''pr_description.md'' \<mapsto> generate_pr_description w3)\<rparr>
                       in (Returned,
                           say [Completed (length (self_fixes w4)), ReportsGenerated] w4)))))"

section \<open>Indexing and the backward scan\<close>

lemma py_index_in_range:
  "0 \<le> i \<Longrightarrow> i < int (length xs) \<Longrightarrow> py_index xs i = Inr (xs ! nat i)"
  by (simp add: py_index_def)

lemma py_index_Cons_pos:
  "0 < i \<Longrightarrow> py_index (a # xs) i = py_index (b # xs) i"
  by (auto simp: py_index_def nth_Cons split: nat.splits)

lemma scan_back_total:
  "0 \<le> stop \<Longrightarrow> i < int (length lines) \<Longrightarrow> \<exists>s. scan_back lines i stop = Inr s"
proof (induction lines i stop rule: scan_back.induct)
  case (1 lines i stop)
  show ?case
  proof (cases "stop < i")
    case False
    then show ?thesis by (subst scan_back.simps) simp
  next
    case True
    with "1.prems" have idx: "py_index lines i = Inr (lines ! nat i)"
      by (simp add: py_index_in_range)
    show ?thesis
    proof (cases "is_declaration (lines ! nat i)")
      case True
      with \<open>stop < i\<close> idx show ?thesis by (subst scan_back.simps) simp
    next
      case False
      from "1.IH"[OF True idx False] "1.prems"
      have "\<exists>s. scan_back lines (i - 1) stop = Inr s" by simp
      with True idx False show ?thesis by (subst scan_back.simps) simp
    qed
  qed
qed

lemma scan_back_first_line:
  "0 \<le> stop \<Longrightarrow> scan_back (a # rest) i stop = scan_back (b # rest) i stop"
proof (induction "a # rest" i stop rule: scan_back.induct)
  case (1 i stop)
  show ?case
  proof (cases "stop < i")
    case False
    then show ?thesis by (simp add: scan_back.simps[of _ i stop])
  next
    case True
    with "1.prems" have eq: "py_index (a # rest) i = py_index (b # rest) i"
      by (intro py_index_Cons_pos) simp
    show ?thesis
    proof (cases "py_index (a # rest) i")
      case (Inl e)
      with eq have "py_index (b # rest) i = Inl e" by simp
      with Inl True show ?thesis by (simp add: scan_back.simps[of _ i stop])
    next
      case (Inr l)
      with eq have pb: "py_index (b # rest) i = Inr l" by simp
      show ?thesis
      proof (cases "is_declaration l")
        case True
        with Inr pb \<open>stop < i\<close> show ?thesis by (simp add: scan_back.simps[of _ i stop])
      next
        case False
        from "1.hyps"[OF True Inr False] "1.prems"
        have "scan_back (a # rest) (i - 1) stop = scan_back (b # rest) (i - 1) stop" by simp
        with Inr pb True False show ?thesis by (simp add: scan_back.simps[of _ i stop])
      qed
    qed
  qed
qed

lemma scan_back_find:
  "0 \<le> stop \<Longrightarrow> i < int (length lines) \<Longrightarrow>
   scan_back lines i stop =
     Inr (case find is_declaration (rev (drop (Suc (nat stop)) (take (Suc (nat i)) lines))) of
            None \<Rightarrow> ''Unknown function'' | Some l \<Rightarrow> strip l)"
proof (induction lines i stop rule: scan_back.induct)
  case (1 lines i stop)
  show ?case
  proof (cases "stop < i")
    case False
    with "1.prems" have "Suc (nat i) \<le> Suc (nat stop)" by simp
    then have "drop (Suc (nat stop)) (take (Suc (nat i)) lines) = []" by simp
    with False show ?thesis by (subst scan_back.simps) simp
  next
    case True
    with "1.prems" have idx: "py_index lines i = Inr (lines ! nat i)"
      by (simp add: py_index_in_range)
    from True "1.prems" have len: "nat i < length lines" and le: "Suc (nat stop) \<le> nat i"
      by simp_all
    have seg: "drop (Suc (nat stop)) (take (Suc (nat i)) lines) =
               drop (Suc (nat stop)) (take (nat i) lines) @ [lines ! nat i]"
      using len le by (simp add: take_Suc_conv_app_nth)
    show ?thesis
    proof (cases "is_declaration (lines ! nat i)")
      case True
      with \<open>stop < i\<close> idx seg show ?thesis by (subst scan_back.simps) simp
    next
      case False
      from True "1.prems" have "Suc (nat (i - 1)) = nat i" by simp
      with "1.IH"[OF True idx False] "1.prems"
      have "scan_back lines (i - 1) stop =
            Inr (case find is_declaration (rev (drop (Suc (nat stop)) (take (nat i) lines))) of
                   None \<Rightarrow> ''Unknown function'' | Some l \<Rightarrow> strip l)" by simp
      with True idx False seg show ?thesis by (subst scan_back.simps) simp
    qed
  qed
qed

text \<open>The lines that the scan reads: from the target line upwards, the nearest first.\<close>

lemma extract_function_name_find:
  assumes "line_num \<le> int (length lines)"
  shows "extract_function_name lines line_num =
     Inr (case find is_declaration (rev (drop (Suc (nat (line_num - 50))) (take (nat line_num) lines))) of
            None \<Rightarrow> ''Unknown function'' | Some l \<Rightarrow> strip l)"
proof (cases "1 \<le> line_num")
  case True
  then have "Suc (nat (line_num - 1)) = nat line_num"
    and "nat (max 0 (line_num - 50)) = nat (line_num - 50)" by simp_all
  with scan_back_find[of "max 0 (line_num - 50)" "line_num - 1" lines] assms
  show ?thesis by (simp add: extract_function_name_def)
next
  case False
  then have "scan_back lines (line_num - 1) (max 0 (line_num - 50)) = Inr ''Unknown function''"
    by (subst scan_back.simps) simp
  with False show ?thesis by (simp add: extract_function_name_def)
qed

lemma find_rev_last:
  "\<exists>x\<in>set xs. P x \<Longrightarrow> find P (rev xs) = Some (last (filter P xs))"
  by (induction xs rule: rev_induct) auto

lemma find_none: "\<forall>x\<in>set xs. \<not> P x \<Longrightarrow> find P xs = None"
  by (induction xs) auto

lemma analyze_code_context_ok:
  assumes "d filepath = Some text" and "1 \<le> line_num"
    and "line_num \<le> int (length (readlines text))"
  shows "\<exists>fname. extract_function_name (readlines text) line_num = Inr fname \<and>
     analyze_code_context d filepath line_num =
       Inr \<lparr>ctx_file = filepath, ctx_line = line_num,
            ctx_context = concat (context_window (readlines text) line_num),
            ctx_function = fname,
            ctx_violation_line = strip (readlines text ! nat (line_num - 1))\<rparr>"
proof -
  from assms obtain fname where f: "extract_function_name (readlines text) line_num = Inr fname"
    using scan_back_total[of "max 0 (line_num - 50)" "line_num - 1" "readlines text"]
    by (auto simp: extract_function_name_def)
  from assms have "py_index (readlines text) (line_num - 1) = Inr (readlines text ! nat (line_num - 1))"
    by (simp add: py_index_in_range)
  with f assms(1) show ?thesis by (simp add: analyze_code_context_def Let_def)
qed

section \<open>Matching and the loops of the scanner\<close>

lemma re_match_append: "re_match r s \<Longrightarrow> re_match r (s @ t)"
proof (induction s arbitrary: r)
  case Nil
  then show ?case by (cases t) simp_all
next
  case (Cons c s)
  then show ?case by auto
qed

lemma re_search_append: "re_search r s \<Longrightarrow> re_search r (s @ t)"
proof (induction s)
  case Nil
  then show ?case by (cases t) simp_all
next
  case (Cons c s)
  from Cons.prems have "re_match r (c # s) \<or> re_search r s" by simp
  then show ?case
  proof
    assume "re_match r (c # s)"
    then have "re_match r ((c # s) @ t)" by (rule re_match_append)
    then show ?thesis by simp
  next
    assume "re_search r s"
    then have "re_search r (s @ t)" by (rule Cons.IH)
    then show ?thesis by simp
  qed
qed

lemma re_search_prepend: "re_search r s \<Longrightarrow> re_search r (p @ s)"
  by (induction p) (simp_all del: re_match.simps)

lemma re_search_inside: "re_search r s \<Longrightarrow> re_search r (p @ s @ t)"
  by (intro re_search_prepend re_search_append)

lemma match_rules_mem:
  "(r, t) \<in> set rules \<Longrightarrow> re_search r line \<Longrightarrow>
   \<lparr>v_file = fp, v_line = int i + 1, v_type = t, v_content = strip line\<rparr>
     \<in> set (match_rules fp i line rules)"
  by (induction rules) auto

lemma match_rules_none:
  "\<forall>r \<in> set (map fst rules). \<not> re_search r line \<Longrightarrow> match_rules fp i line rules = []"
  by (induction rules) auto

lemma match_rules_origin:
  "v \<in> set (match_rules fp i line rules) \<Longrightarrow> v_file v = fp \<and> v_line v = int i + 1"
  by (induction rules) (auto split: if_splits)

lemma scan_lines_mem:
  "i < length lines \<Longrightarrow> v \<in> set (match_rules fp (k + i) (lines ! i) patterns) \<Longrightarrow>
   v \<in> set (scan_lines fp k lines)"
proof (induction lines arbitrary: i k)
  case Nil
  then show ?case by simp
next
  case (Cons l lines)
  show ?case
  proof (cases i)
    case 0
    with Cons.prems show ?thesis by simp
  next
    case (Suc j)
    with Cons.prems have "j < length lines"
      and "v \<in> set (match_rules fp (Suc k + j) (lines ! j) patterns)" by simp_all
    then have "v \<in> set (scan_lines fp (Suc k) lines)" by (rule Cons.IH)
    then show ?thesis by simp
  qed
qed

lemma scan_lines_origin:
  "v \<in> set (scan_lines fp k lines) \<Longrightarrow>
   v_file v = fp \<and> (\<exists>i < length lines. v_line v = int (k + i) + 1)"
proof (induction lines arbitrary: k)
  case Nil
  then show ?case by simp
next
  case (Cons l lines)
  from Cons.prems
  consider "v \<in> set (match_rules fp k l patterns)" | "v \<in> set (scan_lines fp (Suc k) lines)"
    by auto
  then show ?case
  proof cases
    case 1
    then have "v_file v = fp \<and> v_line v = int k + 1" by (rule match_rules_origin)
    then show ?thesis by auto
  next
    case 2
    then have "v_file v = fp \<and> (\<exists>i < length lines. v_line v = int (Suc k + i) + 1)"
      by (rule Cons.IH)
    then obtain i where "v_file v = fp" "i < length lines" "v_line v = int (Suc k + i) + 1"
      by blast
    then have "Suc i < length (l # lines) \<and> v_line v = int (k + Suc i) + 1" by simp
    with \<open>v_file v = fp\<close> show ?thesis by blast
  qed
qed

lemma scan_files_mem:
  "scan_files d root files = Inr vs \<Longrightarrow> file \<in> set files \<Longrightarrow> source_file file \<Longrightarrow>
   d (path_join root file) = Some content \<Longrightarrow>
   set (scan_lines (path_join root file) 0 (readlines content)) \<subseteq> set vs"
  by (induction files arbitrary: vs) (auto split: if_splits option.splits sum.splits)

lemma scan_files_origin:
  "scan_files d root files = Inr vs \<Longrightarrow> v \<in> set vs \<Longrightarrow>
   \<exists>content. d (v_file v) = Some content \<and>
      v \<in> set (scan_lines (v_file v) 0 (readlines content))"
proof (induction files arbitrary: vs)
  case Nil
  then show ?case by simp
next
  case (Cons f files)
  show ?case
  proof (cases "source_file f")
    case False
    with Cons show ?thesis by simp
  next
    case True
    with Cons.prems(1) obtain content ws where
      c: "d (path_join root f) = Some content" and
      ws: "scan_files d root files = Inr ws" and
      vs: "vs = scan_lines (path_join root f) 0 (readlines content) @ ws"
      by (auto split: option.splits sum.splits)
    from Cons.prems(2) vs
    consider "v \<in> set (scan_lines (path_join root f) 0 (readlines content))" | "v \<in> set ws"
      by auto
    then show ?thesis
    proof cases
      case 1
      then have "v_file v = path_join root f" by (auto dest: scan_lines_origin)
      with 1 c show ?thesis by auto
    next
      case 2
      with ws show ?thesis by (rule Cons.IH)
    qed
  qed
qed

lemma scan_files_fail:
  "file \<in> set files \<Longrightarrow> source_file file \<Longrightarrow> d (path_join root file) = None \<Longrightarrow>
   \<exists>p. scan_files d root files = Inl (OSError p) \<and> d p = None"
  by (induction files) (auto split: option.splits sum.splits)

lemma find_violations_mem:
  "find_violations d wk = Inr vs \<Longrightarrow> (root, dirs, files) \<in> set wk \<Longrightarrow> \<not> skipped_root root \<Longrightarrow>
   \<exists>ws. scan_files d root files = Inr ws \<and> set ws \<subseteq> set vs"
proof (induction d wk arbitrary: vs rule: find_violations.induct)
  case (1 d)
  then show ?case by simp
next
  case (2 d r ds fs rest)
  show ?case
  proof (cases "skipped_root r")
    case True
    with "2.prems" have "find_violations d rest = Inr vs" and "(root, dirs, files) \<in> set rest"
      by auto
    with "2.IH"(1)[OF True] "2.prems"(3) show ?thesis by blast
  next
    case False
    with "2.prems"(1) obtain xs ys where
      xs: "scan_files d r fs = Inr xs" and ys: "find_violations d rest = Inr ys"
      and vs: "vs = xs @ ys"
      by (auto split: sum.splits)
    show ?thesis
    proof (cases "(root, dirs, files) = (r, ds, fs)")
      case True
      with xs vs show ?thesis by auto
    next
      case ne: False
      with "2.prems"(2) have "(root, dirs, files) \<in> set rest" by auto
      from "2.IH"(2)[OF False xs ys this "2.prems"(3)] vs show ?thesis by auto
    qed
  qed
qed

lemma find_violations_origin:
  "find_violations d wk = Inr vs \<Longrightarrow> v \<in> set vs \<Longrightarrow>
   \<exists>content. d (v_file v) = Some content \<and>
      v \<in> set (scan_lines (v_file v) 0 (readlines content))"
proof (induction d wk arbitrary: vs rule: find_violations.induct)
  case (1 d)
  then show ?case by simp
next
  case (2 d root dirs files rest)
  show ?case
  proof (cases "skipped_root root")
    case True
    with 2 show ?thesis by simp
  next
    case False
    with "2.prems"(1) obtain xs ys where
      xs: "scan_files d root files = Inr xs" and ys: "find_violations d rest = Inr ys"
      and vs: "vs = xs @ ys"
      by (auto split: sum.splits)
    from "2.prems"(2) vs consider "v \<in> set xs" | "v \<in> set ys" by auto
    then show ?thesis
    proof cases
      case 1
      with xs show ?thesis by (rule scan_files_origin)
    next
      case 2
      from "2.IH"(2)[OF False xs ys 2] show ?thesis .
    qed
  qed
qed

lemma scan_files_error:
  "scan_files d root files = Inl e \<Longrightarrow> \<exists>p. e = OSError p \<and> d p = None"
  by (induction files) (auto split: if_splits option.splits sum.splits)

lemma find_violations_error:
  "find_violations d wk = Inl e \<Longrightarrow> \<exists>p. e = OSError p \<and> d p = None"
  by (induction d wk rule: find_violations.induct)
     (auto split: if_splits sum.splits dest: scan_files_error)

lemma find_violations_fail:
  assumes "(root, dirs, files) \<in> set wk" and "\<not> skipped_root root" and "f \<in> set files"
    and "source_file f" and "d (path_join root f) = None"
  shows "\<exists>p. find_violations d wk = Inl (OSError p) \<and> d p = None"
proof (cases "find_violations d wk")
  case (Inl e)
  then show ?thesis by (auto dest: find_violations_error)
next
  case (Inr vs)
  from find_violations_mem[OF Inr assms(1,2)] obtain ws where "scan_files d root files = Inr ws"
    by blast
  moreover from scan_files_fail[of f files d root] assms(3,4,5) obtain p where
    "scan_files d root files = Inl (OSError p)" by blast
  ultimately show ?thesis by simp
qed

lemma placeholder_rule:
  "(seqs [lit ''return'', Plus Space, lit ''0.5f'', Star Space, Lit (CHR '';''), Star Dot,
          lit ''placeholder''], ''hardcoded_placeholder'') \<in> set patterns"
  by (simp add: patterns_def)

lemma placeholder_found:
  "re_search (seqs [lit ''return'', Plus Space, lit ''0.5f'', Star Space, Lit (CHR '';''), Star Dot,
          lit ''placeholder'']) (pre @ ''return 0.5f; // placeholder'' @ post)"
proof -
  have "re_search (seqs [lit ''return'', Plus Space, lit ''0.5f'', Star Space, Lit (CHR '';''), Star Dot,
          lit ''placeholder'']) ''return 0.5f; // placeholder''"
    by code_simp
  then show ?thesis by (rule re_search_inside)
qed

lemma bare_return_clean:
  "\<forall>r \<in> set (map fst patterns). \<not> re_search r ''return 0.5f;''"
  "\<forall>r \<in> set (map fst patterns). \<not> re_search r (''return 0.5f;'' @ [NL])"
  by code_simp+

lemma bare_return_lines:
  "content = ''return 0.5f;'' \<or> content = ''return 0.5f;'' @ [NL] \<Longrightarrow>
   scan_lines fp 0 (readlines content) = []"
proof -
  have r1: "readlines ''return 0.5f;'' = [''return 0.5f;'']" by code_simp
  have r2: "readlines (''return 0.5f;'' @ [NL]) = [''return 0.5f;'' @ [NL]]" by code_simp
  assume "content = ''return 0.5f;'' \<or> content = ''return 0.5f;'' @ [NL]"
  then show ?thesis
  proof
    assume "content = ''return 0.5f;''"
    then show ?thesis using match_rules_none[OF bare_return_clean(1)] by (simp only: r1 scan_lines.simps) simp
  next
    assume "content = ''return 0.5f;'' @ [NL]"
    then show ?thesis using match_rules_none[OF bare_return_clean(2)] by (simp only: r2 scan_lines.simps) simp
  qed
qed

lemma readlines_split_from:
  "i < length (readlines_from acc t) \<Longrightarrow>
   i < length (split_from acc t) \<and>
   (readlines_from acc t ! i = split_from acc t ! i @ [NL] \<or>
    readlines_from acc t ! i = split_from acc t ! i)"
proof (induction t arbitrary: acc i)
  case Nil
  then show ?case by (simp split: if_splits)
next
  case (Cons c cs)
  show ?case
  proof (cases "c = NL")
    case True
    show ?thesis
    proof (cases i)
      case 0
      with True show ?thesis by simp
    next
      case (Suc j)
      with Cons.prems True have "j < length (readlines_from [] cs)" by simp
      from Cons.IH[OF this] True Suc show ?thesis by simp
    qed
  next
    case False
    with Cons.prems have "i < length (readlines_from (acc @ [c]) cs)" by simp
    from Cons.IH[OF this] False show ?thesis by simp
  qed
qed

lemma readlines_split_nl:
  assumes "1 \<le> line_num" and "line_num \<le> int (length (readlines content))"
  shows "line_num \<le> int (length (split_nl content)) \<and>
     (readlines content ! nat (line_num - 1) = split_nl content ! nat (line_num - 1) @ [NL] \<or>
      readlines content ! nat (line_num - 1) = split_nl content ! nat (line_num - 1))"
proof -
  from assms have "nat (line_num - 1) < length (readlines_from [] content)"
    by (simp add: readlines_def)
  from readlines_split_from[OF this]
  have lt: "nat (line_num - 1) < length (split_from [] content)"
    and eq: "readlines_from [] content ! nat (line_num - 1) =
               split_from [] content ! nat (line_num - 1) @ [NL] \<or>
             readlines_from [] content ! nat (line_num - 1) =
               split_from [] content ! nat (line_num - 1)"
    by simp_all
  from lt assms(1) have "line_num \<le> int (length (split_from [] content))" by linarith
  with eq show ?thesis by (simp add: readlines_def split_nl_def)
qed

text \<open>
  The window of a valid target line, in general: the 19 lines before the target (fewer at
  the start of the file), the target line, and the 20 lines after it (fewer at the end).
\<close>

lemma context_window_shape:
  assumes "1 \<le> line_num" and "line_num \<le> int (length lines)"
  shows "context_window lines line_num =
           drop (nat (line_num - 20)) (take (nat (line_num - 1)) lines) @
           [lines ! nat (line_num - 1)] @ take 20 (drop (nat line_num) lines)"
proof -
  define n where "n = nat (line_num - 1)"
  with assms have ln: "line_num = int n + 1" and n: "n < length lines" by simp_all
  have a: "clip_bound (int (length lines)) (max 0 (line_num - 20)) = n - 19"
    using n by (auto simp: clip_bound_def ln max_def min_def)
  have b: "clip_bound (int (length lines)) (min (int (length lines)) (line_num + 20)) =
           min (length lines) (n + 21)"
    using n by (auto simp: clip_bound_def ln min_def)
  have "take (min (length lines) (n + 21)) lines = take (n + 21) lines"
    by (cases "length lines \<le> n + 21") (simp_all add: min_def)
  also have "\<dots> = take n lines @ take 21 (drop n lines)"
    by (simp add: take_add)
  also have "drop n lines = lines ! n # drop (Suc n) lines"
    using n by (simp add: Cons_nth_drop_Suc)
  finally have t: "take (min (length lines) (n + 21)) lines =
      take n lines @ [lines ! n] @ take 20 (drop (Suc n) lines)" by simp
  have "drop (n - 19) (take n lines @ [lines ! n] @ take 20 (drop (Suc n) lines)) =
        drop (n - 19) (take n lines) @ [lines ! n] @ take 20 (drop (Suc n) lines)"
    using n by simp
  with a b t have "context_window lines line_num =
     drop (n - 19) (take n lines) @ [lines ! n] @ take 20 (drop (Suc n) lines)"
    by (simp add: context_window_def py_slice_def)
  moreover have "nat (line_num - 20) = n - 19" "nat line_num = Suc n" using ln by simp_all
  ultimately show ?thesis by (simp add: n_def)
qed

text \<open>The patterns on sample lines, as Python's \<open>re\<close> decides them.\<close>

lemma declaration_examples:
  "is_declaration ''float Analyzer::energy(const Buffer& b) {''"
  "is_declaration ''function analyze (track) {''"
  "is_declaration ''  async function load(path) {''"
  "\<not> is_declaration ''  return foo(x);''"
  "\<not> is_declaration ''Analyzer::energy(x)''"
  "\<not> is_declaration ''functionfoo() {''"
  by code_simp+

lemma scan_lines_examples:
  "scan_lines ''a.js'' 0 [''// TODO: fix this'' @ [NL]] =
     [\<lparr>v_file = ''a.js'', v_line = 1, v_type = ''todo_comment'', v_content = ''// TODO: fix this''\<rparr>]"
  "scan_lines ''a.js'' 0 [''  throw new Error('' @ [CHR 0x22] @ ''not implemented'' @ [CHR 0x22] @ '');''] =
     [\<lparr>v_file = ''a.js'', v_line = 1, v_type = ''not_implemented_error'',
       v_content = ''throw new Error('' @ [CHR 0x22] @ ''not implemented'' @ [CHR 0x22] @ '');''\<rparr>]"
  "scan_lines ''a.js'' 0 [''x = 1;'' @ [NL], ''  return '' @ [CHR 0x22] @ ''Neutral'' @ [CHR 0x22] @ '';'' @ [NL]] =
     [\<lparr>v_file = ''a.js'', v_line = 2, v_type = ''hardcoded_string'',
       v_content = ''return '' @ [CHR 0x22] @ ''Neutral'' @ [CHR 0x22] @ '';''\<rparr>]"
  "scan_lines ''a.js'' 0 [''// todo: later'', ''return 0.5f;  // place holder''] = []"
  by code_simp+

section \<open>The loop of the entry point\<close>

lemma find_violations_lines:
  assumes "find_violations d wk = Inr vs" and "v \<in> set vs"
  shows "\<exists>content. d (v_file v) = Some content \<and> 1 \<le> v_line v \<and>
           v_line v \<le> int (length (readlines content))"
proof -
  from find_violations_origin[OF assms] obtain content where
    c: "d (v_file v) = Some content" and
    m: "v \<in> set (scan_lines (v_file v) 0 (readlines content))" by blast
  from scan_lines_origin[OF m] obtain i where
    "i < length (readlines content)" "v_line v = int (0 + i) + 1" by blast
  then have "1 \<le> v_line v \<and> v_line v \<le> int (length (readlines content))" by simp
  with c show ?thesis by blast
qed

lemma process_violation_scanned:
  assumes c: "w_disk w (v_file v) = Some content" and lo: "1 \<le> v_line v"
    and hi: "v_line v \<le> int (length (readlines content))"
  shows "\<exists>p w'. process_violation sv i n v w = (Inr (), w') \<and> w_disk w' = w_disk w \<and>
           self_violations w' = self_violations w \<and> requests w' = requests w @ [p] \<and>
           (\<exists>ls. console w' = console w @ ls) \<and>
           self_fixes w' = self_fixes w @
             (case sv (length (requests w)) p of
                Inl e \<Rightarrow> []
              | Inr t \<Rightarrow> [\<lparr>f_file = v_file v, f_line = v_line v,
                          f_original = split_nl content ! nat (v_line v - 1), f_fixed = t\<rparr>])"
proof -
  from analyze_code_context_ok[of "w_disk w" "v_file v" content "v_line v"] c lo hi
  obtain ctx where a: "analyze_code_context (w_disk w) (v_file v) (v_line v) = Inr ctx"
    by blast
  from readlines_split_nl[OF lo hi] have sp: "v_line v \<le> int (length (split_nl content))"
    by simp
  show ?thesis
  proof (cases "sv (length (requests w)) (prompt_of ctx)")
    case (Inl e)
    with a have "process_violation sv i n v w =
       (Inr (), w\<lparr>console := console w @
                 [Processing (i + 1) n, FileLine (v_file v) (v_line v), TypeLine (v_type v),
                  Generating, FixError e],
              requests := requests w @ [prompt_of ctx]\<rparr>)"
      by (simp add: process_violation_def generate_fix_with_ai_def say_def)
    with Inl show ?thesis by simp
  next
    case (Inr t)
    with a c lo sp have "process_violation sv i n v w =
       (Inr (), w\<lparr>console := console w @
                 [Processing (i + 1) n, FileLine (v_file v) (v_line v), TypeLine (v_type v),
                  Generating, FixOk],
              requests := requests w @ [prompt_of ctx],
              self_fixes := self_fixes w @
                 [\<lparr>f_file = v_file v, f_line = v_line v,
                   f_original = split_nl content ! nat (v_line v - 1), f_fixed = t\<rparr>]\<rparr>)"
      by (simp add: process_violation_def generate_fix_with_ai_def say_def apply_fix_def
            py_index_in_range)
    with Inr show ?thesis by simp
  qed
qed

text \<open>
  The loop over violations that the scanner found: each one is processed, one prompt is
  sent for each, and a fix is recorded for each call that returned a text.
\<close>

lemma process_all_scanned:
  assumes "\<forall>v \<in> set vs. \<exists>content. w_disk w (v_file v) = Some content \<and> 1 \<le> v_line v \<and>
             v_line v \<le> int (length (readlines content))"
  shows "\<exists>ps fs ls w'. process_all sv i n vs w = (Inr (), w') \<and> w_disk w' = w_disk w \<and>
           self_violations w' = self_violations w \<and>
           requests w' = requests w @ ps \<and> length ps = length vs \<and>
           console w' = console w @ ls \<and>
           self_fixes w' = self_fixes w @ fs \<and>
           length fs = length (filter (\<lambda>(k, p). \<not> isl (sv k p)) (enumerate (length (requests w)) ps)) \<and>
           (\<forall>f \<in> set fs. \<exists>v \<in> set vs. f_file f = v_file v \<and> f_line f = v_line v)"
  using assms
proof (induction vs arbitrary: w i)
  case Nil
  then show ?case by simp
next
  case (Cons v vs)
  from Cons.prems obtain content where
    c: "w_disk w (v_file v) = Some content" "1 \<le> v_line v"
       "v_line v \<le> int (length (readlines content))" by auto
  from process_violation_scanned[OF c, of sv i n] obtain p w1 ls1 where
    pv: "process_violation sv i n v w = (Inr (), w1)" and d1: "w_disk w1 = w_disk w" and
    v1: "self_violations w1 = self_violations w" and r1: "requests w1 = requests w @ [p]" and
    c1: "console w1 = console w @ ls1" and
    f1: "self_fixes w1 = self_fixes w @
             (case sv (length (requests w)) p of
                Inl e \<Rightarrow> []
              | Inr t \<Rightarrow> [\<lparr>f_file = v_file v, f_line = v_line v,
                          f_original = split_nl content ! nat (v_line v - 1), f_fixed = t\<rparr>])"
    by blast
  from Cons.prems d1 have "\<forall>v \<in> set vs. \<exists>content. w_disk w1 (v_file v) = Some content \<and>
      1 \<le> v_line v \<and> v_line v \<le> int (length (readlines content))" by simp
  from Cons.IH[OF this, of "Suc i"] obtain ps fs ls w' where
    pa: "process_all sv (Suc i) n vs w1 = (Inr (), w')" and d2: "w_disk w' = w_disk w1" and
    v2: "self_violations w' = self_violations w1" and r2: "requests w' = requests w1 @ ps" and
    l2: "length ps = length vs" and c2: "console w' = console w1 @ ls" and
    f2: "self_fixes w' = self_fixes w1 @ fs" and
    n2: "length fs = length (filter (\<lambda>(k, p). \<not> isl (sv k p)) (enumerate (length (requests w1)) ps))" and
    o2: "\<forall>f \<in> set fs. \<exists>v \<in> set vs. f_file f = v_file v \<and> f_line f = v_line v"
    by blast
  let ?fs1 = "case sv (length (requests w)) p of
                Inl e \<Rightarrow> []
              | Inr t \<Rightarrow> [\<lparr>f_file = v_file v, f_line = v_line v,
                          f_original = split_nl content ! nat (v_line v - 1), f_fixed = t\<rparr>]"
  have run: "process_all sv i n (v # vs) w = (Inr (), w')" using pv pa by simp
  have len: "length (?fs1 @ fs) =
     length (filter (\<lambda>(k, p). \<not> isl (sv k p)) (enumerate (length (requests w)) (p # ps)))"
    using n2 r1 by (cases "sv (length (requests w)) p") simp_all
  have orig: "\<forall>f \<in> set (?fs1 @ fs). \<exists>u \<in> set (v # vs). f_file f = v_file u \<and> f_line f = v_line u"
    using o2 by (cases "sv (length (requests w)) p") auto
  have "requests w' = requests w @ (p # ps)" using r1 r2 by simp
  moreover have "length (p # ps) = length (v # vs)" using l2 by simp
  moreover have "console w' = console w @ (ls1 @ ls)" using c1 c2 by simp
  moreover have "self_fixes w' = self_fixes w @ (?fs1 @ fs)" using f1 f2 by simp
  moreover have "w_disk w' = w_disk w" using d1 d2 by simp
  moreover have "self_violations w' = self_violations w" using v1 v2 by simp
  ultimately show ?case using run len orig by blast
qed

lemma main_without_key:
  assumes "env ''ANTHROPIC_API_KEY'' = None \<or> env ''ANTHROPIC_API_KEY'' = Some []"
  shows "main env wk sv json_dump d =
           (SysExit 1,
            \<lparr>w_disk = d, self_violations = [], self_fixes = [], console = [MissingKey],
             requests = []\<rparr>)"
  using assms by (auto simp: main_def say_def)

lemma main_scan_failed:
  assumes "env ''ANTHROPIC_API_KEY'' = Some api_key" and "api_key \<noteq> []"
    and "find_violations d wk = Inl e"
  shows "main env wk sv json_dump d =
           (Raised e,
            \<lparr>w_disk = d, self_violations = [], self_fixes = [], console = [ScanStart],
             requests = []\<rparr>)"
  using assms by (simp add: main_def say_def)

lemma main_run:
  assumes key: "env ''ANTHROPIC_API_KEY'' = Some api_key" "api_key \<noteq> []"
    and fv: "find_violations d wk = Inr vs"
  shows "\<exists>ps fs ls w. main env wk sv json_dump d = (Returned, w) \<and>
           requests w = ps \<and> length ps = min max_fixes (length vs) \<and>
           self_fixes w = fs \<and> self_violations w = [] \<and>
           length fs = length (filter (\<lambda>(k, p). \<not> isl (sv k p)) (enumerate 0 ps)) \<and>
           (\<forall>f \<in> set fs. \<exists>v \<in> set (take max_fixes vs). f_file f = v_file v \<and> f_line f = v_line v) \<and>
           console w = [ScanStart, FoundCount (length vs)] @ ls @ [Completed (length fs), ReportsGenerated] \<and>
           w_disk w = d(''ai_fix_report.json'' \<mapsto>
                          json_dump \<lparr>violations_found = length vs, fixes_applied = length fs,
                                     rep_violations = vs, rep_fixes = fs\<rparr>,
                        ''pr_description.md'' \<mapsto>
                          generate_pr_description
                            \<lparr>w_disk = d(''ai_fix_report.json'' \<mapsto>
                                 json_dump \<lparr>violations_found = length vs, fixes_applied = length fs,
                                            rep_violations = vs, rep_fixes = fs\<rparr>),
                             self_violations = [], self_fixes = fs,
                             console = [ScanStart, FoundCount (length vs)] @ ls, requests = ps\<rparr>)"
proof -
  let ?w = "\<lparr>w_disk = d, self_violations = [], self_fixes = [],
             console = [ScanStart, FoundCount (length vs)], requests = []\<rparr>"
  have "\<forall>v \<in> set (take max_fixes vs). \<exists>content. w_disk ?w (v_file v) = Some content \<and>
          1 \<le> v_line v \<and> v_line v \<le> int (length (readlines content))"
    using find_violations_lines[OF fv] by (auto dest: in_set_takeD)
  from process_all_scanned[OF this, of sv 0 "min max_fixes (length vs)"]
  obtain ps fs ls w' where
    pa: "process_all sv 0 (min max_fixes (length vs)) (take max_fixes vs) ?w = (Inr (), w')" and
    dk: "w_disk w' = d" and sv': "self_violations w' = []" and rq: "requests w' = ps" and
    lp: "length ps = length (take max_fixes vs)" and
    co: "console w' = [ScanStart, FoundCount (length vs)] @ ls" and
    fx: "self_fixes w' = fs" and
    nf: "length fs = length (filter (\<lambda>(k, p). \<not> isl (sv k p)) (enumerate 0 ps))" and
    og: "\<forall>f \<in> set fs. \<exists>v \<in> set (take max_fixes vs). f_file f = v_file v \<and> f_line f = v_line v"
    by auto
  have w': "w' = \<lparr>w_disk = d, self_violations = [], self_fixes = fs,
                  console = [ScanStart, FoundCount (length vs)] @ ls, requests = ps\<rparr>"
    using dk sv' rq co fx by (cases w') simp
  let ?rep = "\<lparr>violations_found = length vs, fixes_applied = length fs,
                rep_violations = vs, rep_fixes = fs\<rparr>"
  let ?w3 = "\<lparr>w_disk = d(''ai_fix_report.json'' \<mapsto> json_dump ?rep),
              self_violations = [], self_fixes = fs,
              console = [ScanStart, FoundCount (length vs)] @ ls, requests = ps\<rparr>"
  let ?w5 = "\<lparr>w_disk = d(''ai_fix_report.json'' \<mapsto> json_dump ?rep,
                          ''pr_description.md'' \<mapsto> generate_pr_description ?w3),
              self_violations = [], self_fixes = fs,
              console = [ScanStart, FoundCount (length vs)] @ ls @ [Completed (length fs), ReportsGenerated],
              requests = ps\<rparr>"
  have "main env wk sv json_dump d = (Returned, ?w5)"
    using key fv pa unfolding w' by (simp add: main_def say_def Let_def)
  moreover have "length ps = min max_fixes (length vs)" using lp by simp
  ultimately show ?thesis using nf og by simp
qed

lemma filter_length_le: "length (filter P xs) \<le> length xs"
  by simp

section \<open>The context window\<close>

text \<open>
  C1, at a failing input.  The file has the 50 lines \<open>1\<close>, \<open>2\<close>, ..., \<open>50\<close> and the
  target is line 25.  The comment in \<open>analyze_code_context\<close> announces 20 lines before
  and after; the context returned holds the lines 6 to 45, that is 19 lines before the
  target, the target, and 20 lines after it: line 5, the twentieth line before the target,
  is missing.
\<close>

theorem context_window_line_25_of_50:
  "analyze_code_context (\<lambda>p. Some (concat (map (\<lambda>k. str_nat k @ [NL]) [1..<51]))) ''a.cpp'' 25 =
     Inr \<lparr>ctx_file = ''a.cpp'', ctx_line = 25,
          ctx_context = concat (map (\<lambda>k. str_nat k @ [NL]) [6..<46]),
          ctx_function = ''Unknown function'', ctx_violation_line = ''25''\<rparr>"
  by code_simp

text \<open>
  C9.  When fewer than 20 lines stand before a valid target line, the extraction returns
  a context (no index is out of range), and its window is the file's lines from the first
  one up to the line \<open>line_num + 20\<close>, or to the end of the file when it is shorter:
  a non-empty prefix of the file, with nothing added.
\<close>

theorem context_window_at_file_start:
  assumes "d filepath = Some text" and "1 \<le> line_num"
    and "line_num \<le> int (length (readlines text))" and "line_num - 1 < 20"
  shows "(\<exists>ctx. analyze_code_context d filepath line_num = Inr ctx \<and>
            ctx_context ctx = concat (take (nat (line_num + 20)) (readlines text))) \<and>
         context_window (readlines text) line_num = take (nat (line_num + 20)) (readlines text) \<and>
         context_window (readlines text) line_num \<noteq> [] \<and>
         hd (context_window (readlines text) line_num) = hd (readlines text)"
proof -
  let ?ls = "readlines text"
  have win: "context_window ?ls line_num = take (nat (line_num + 20)) ?ls"
  proof -
    have "clip_bound (int (length ?ls)) (max 0 (line_num - 20)) = 0"
      using assms(4) by (simp add: clip_bound_def)
    moreover have "take (clip_bound (int (length ?ls)) (min (int (length ?ls)) (line_num + 20))) ?ls =
                   take (nat (line_num + 20)) ?ls"
      using assms(2) by (cases "int (length ?ls) \<le> line_num + 20") (simp_all add: clip_bound_def min_def)
    ultimately show ?thesis by (simp add: context_window_def py_slice_def)
  qed
  from assms(2,3) have ne: "?ls \<noteq> []" by auto
  with assms(2) have ne': "take (nat (line_num + 20)) ?ls \<noteq> []" by simp
  from assms(2) have "0 < nat (line_num + 20)" by simp
  then have hd: "hd (take (nat (line_num + 20)) ?ls) = hd ?ls" by (simp add: hd_take)
  from analyze_code_context_ok[of d filepath "text" line_num] assms(1,2,3) win
  have "\<exists>ctx. analyze_code_context d filepath line_num = Inr ctx \<and>
            ctx_context ctx = concat (take (nat (line_num + 20)) ?ls)" by auto
  with win ne' hd show ?thesis by simp
qed

theorem context_window_at_file_start_witness:
  "(\<lambda>p. Some (''a'' @ [NL] @ ''b'' @ [NL] @ ''c'' @ [NL])) ''x.cpp'' = Some (''a'' @ [NL] @ ''b'' @ [NL] @ ''c'' @ [NL]) \<and>
   (1::int) \<le> 2 \<and> (2::int) \<le> int (length (readlines (''a'' @ [NL] @ ''b'' @ [NL] @ ''c'' @ [NL]))) \<and>
   (2::int) - 1 < 20 \<and>
   (\<exists>ctx. analyze_code_context (\<lambda>p. Some (''a'' @ [NL] @ ''b'' @ [NL] @ ''c'' @ [NL])) ''x.cpp'' 2 = Inr ctx \<and>
      ctx_context ctx = ''a'' @ [NL] @ ''b'' @ [NL] @ ''c'' @ [NL])"
proof -
  let ?t = "''a'' @ [NL] @ ''b'' @ [NL] @ ''c'' @ [NL]"
  have h3: "(2::int) \<le> int (length (readlines ?t))" by code_simp
  have tk: "concat (take (nat (2 + 20)) (readlines ?t)) = ?t" by code_simp
  have "\<exists>ctx. analyze_code_context (\<lambda>p. Some ?t) ''x.cpp'' 2 = Inr ctx \<and>
          ctx_context ctx = concat (take (nat (2 + 20)) (readlines ?t))"
    using context_window_at_file_start[of "\<lambda>p. Some ?t" "''x.cpp''" ?t 2, OF refl _ h3] by simp
  then have "\<exists>ctx. analyze_code_context (\<lambda>p. Some ?t) ''x.cpp'' 2 = Inr ctx \<and> ctx_context ctx = ?t"
    by (simp only: tk)
  with h3 show ?thesis by simp
qed

section \<open>The function-name heuristic\<close>

text \<open>
  C2, as amended.  For a target line of the file: if none of the three patterns matches
  the target line or any of the 50 lines above it, the label is exactly
  \<open>Unknown function\<close>; if a pattern matches the target line or one of the 48 lines
  above it, the first line of the file apart, the label is the nearest such line to the
  target, stripped.
\<close>

theorem extract_function_name_scan:
  assumes "line_num \<le> int (length lines)"
  shows "((\<forall>l \<in> set (drop (nat (line_num - 51)) (take (nat line_num) lines)). \<not> is_declaration l) \<longrightarrow>
            extract_function_name lines line_num = Inr ''Unknown function'') \<and>
         ((\<exists>l \<in> set (drop (max 1 (nat (line_num - 49))) (take (nat line_num) lines)). is_declaration l) \<longrightarrow>
            extract_function_name lines line_num =
              Inr (strip (last (filter is_declaration
                     (drop (max 1 (nat (line_num - 49))) (take (nat line_num) lines))))))"
proof -
  let ?seg = "drop (Suc (nat (line_num - 50))) (take (nat line_num) lines)"
  have same: "max 1 (nat (line_num - 49)) = Suc (nat (line_num - 50))" by simp
  have sub: "set ?seg \<subseteq> set (drop (nat (line_num - 51)) (take (nat line_num) lines))"
    by (rule set_drop_subset_set_drop) simp
  have a: "extract_function_name lines line_num = Inr ''Unknown function''"
    if "\<forall>l \<in> set (drop (nat (line_num - 51)) (take (nat line_num) lines)). \<not> is_declaration l"
  proof -
    from that sub have "\<forall>l \<in> set (rev ?seg). \<not> is_declaration l" by auto
    then have "find is_declaration (rev ?seg) = None" by (rule find_none)
    with extract_function_name_find[OF assms] show ?thesis by simp
  qed
  have b: "extract_function_name lines line_num = Inr (strip (last (filter is_declaration ?seg)))"
    if "\<exists>l \<in> set ?seg. is_declaration l"
  proof -
    from that have "find is_declaration (rev ?seg) = Some (last (filter is_declaration ?seg))"
      by (rule find_rev_last)
    with extract_function_name_find[OF assms] show ?thesis by simp
  qed
  from a b show ?thesis unfolding same by blast
qed

theorem extract_function_name_scan_witness:
  "(3::int) \<le> int (length [''int x;'', ''function foo() {'', ''  return 0.5f; // placeholder'']) \<and>
   is_declaration ''function foo() {'' \<and>
   extract_function_name [''int x;'', ''function foo() {'', ''  return 0.5f; // placeholder''] 3 =
     Inr ''function foo() {'' \<and>
   (2::int) \<le> int (length [''int x;'', ''  return 0.5f; // placeholder'']) \<and>
   \<not> is_declaration ''int x;'' \<and> \<not> is_declaration ''  return 0.5f; // placeholder'' \<and>
   extract_function_name [''int x;'', ''  return 0.5f; // placeholder''] 2 = Inr ''Unknown function''"
proof -
  let ?L = "[''int x;'', ''function foo() {'', ''  return 0.5f; // placeholder'']"
  let ?M = "[''int x;'', ''  return 0.5f; // placeholder'']"
  have l3: "(3::int) \<le> int (length ?L)" by simp
  have l2: "(2::int) \<le> int (length ?M)" by simp
  have d: "is_declaration ''function foo() {''" by code_simp
  have n1: "\<not> is_declaration ''int x;''" by code_simp
  have n2: "\<not> is_declaration ''  return 0.5f; // placeholder''" by code_simp
  have ex: "\<exists>l \<in> set (drop (max 1 (nat (3 - 49))) (take (nat 3) ?L)). is_declaration l"
    using d by simp
  have val: "strip (last (filter is_declaration (drop (max 1 (nat (3 - 49))) (take (nat 3) ?L)))) =
             ''function foo() {''"
    by code_simp
  have no: "\<forall>l \<in> set (drop (nat (2 - 51)) (take (nat 2) ?M)). \<not> is_declaration l"
    using n1 n2 by simp
  have r3: "extract_function_name ?L 3 = Inr ''function foo() {''"
    using extract_function_name_scan[OF l3, THEN conjunct2, THEN mp, OF ex] by (simp only: val)
  have r2: "extract_function_name ?M 2 = Inr ''Unknown function''"
    using extract_function_name_scan[OF l2, THEN conjunct1, THEN mp, OF no] .
  from l3 d r3 l2 n1 n2 r2 show ?thesis by blast
qed

text \<open>
  C2 as stated fails twice.  In a two-line file whose second line is a one-line function
  with a placeholder, no line above the target matches, yet the label is the target line
  itself and not \<open>Unknown function\<close>.  In a 52-line file with a declaration on line 3,
  that is 49 lines above the target line 52, the label is \<open>Unknown function\<close> although
  a declaration stands within 50 lines above the target.
\<close>

theorem extract_function_name_counterexample:
  "\<not> is_declaration ''int x;'' \<and>
   extract_function_name [''int x;'', ''function foo() { return 0.5f; } // placeholder''] 2 =
     Inr ''function foo() { return 0.5f; } // placeholder'' \<and>
   is_declaration ''function far() {'' \<and>
   extract_function_name
     (''// file'' # ''// head'' # ''function far() {'' # replicate 48 ''  x = x + 1;'' @ [''  return 0.5f; // placeholder''])
     52 = Inr ''Unknown function''"
  by code_simp

text \<open>
  C10.  The first line of the file is never read by \<open>extract_function_name\<close>: the
  result is the same whatever that line is, and when no other line of the file is a
  declaration the label is \<open>Unknown function\<close>, also when the first line is a
  declaration and the target is right below it.
\<close>

theorem first_line_never_examined:
  "extract_function_name (a # rest) line_num = extract_function_name (b # rest) line_num \<and>
   (line_num \<le> int (length (a # rest)) \<and> (\<forall>l \<in> set rest. \<not> is_declaration l) \<longrightarrow>
      extract_function_name (a # rest) line_num = Inr ''Unknown function'')"
proof -
  have indep: "extract_function_name (a # rest) line_num = extract_function_name (b # rest) line_num"
    unfolding extract_function_name_def by (rule scan_back_first_line) simp
  have unk: "extract_function_name (a # rest) line_num = Inr ''Unknown function''"
    if len: "line_num \<le> int (length (a # rest))" and nd: "\<forall>l \<in> set rest. \<not> is_declaration l"
  proof -
    have "set (drop (Suc (nat (line_num - 50))) (take (nat line_num) (a # rest))) \<subseteq> set rest"
    proof -
      have "set (drop (Suc (nat (line_num - 50))) (take (nat line_num) (a # rest)))
            \<subseteq> set (drop (Suc 0) (take (nat line_num) (a # rest)))"
        by (rule set_drop_subset_set_drop) simp
      also have "\<dots> \<subseteq> set rest"
        by (cases "nat line_num") (auto dest: in_set_takeD)
      finally show ?thesis .
    qed
    with nd have "\<forall>l \<in> set (rev (drop (Suc (nat (line_num - 50))) (take (nat line_num) (a # rest)))).
                    \<not> is_declaration l" by auto
    then have "find is_declaration (rev (drop (Suc (nat (line_num - 50))) (take (nat line_num) (a # rest)))) = None"
      by (rule find_none)
    with extract_function_name_find[OF len] show ?thesis by simp
  qed
  from indep unk show ?thesis by blast
qed

theorem first_line_never_examined_witness:
  "(2::int) \<le> int (length (''function foo() {'' # [''  return 0.5f; // placeholder''])) \<and>
   \<not> is_declaration ''  return 0.5f; // placeholder'' \<and>
   is_declaration ''function foo() {'' \<and>
   extract_function_name (''function foo() {'' # [''  return 0.5f; // placeholder'']) 2 =
     Inr ''Unknown function''"
proof -
  have l: "(2::int) \<le> int (length (''function foo() {'' # [''  return 0.5f; // placeholder'']))"
    by simp
  have n: "\<not> is_declaration ''  return 0.5f; // placeholder''" by code_simp
  then have nd: "\<forall>l \<in> set [''  return 0.5f; // placeholder'']. \<not> is_declaration l" by simp
  have d: "is_declaration ''function foo() {''" by code_simp
  from first_line_never_examined[of "''function foo() {''" "[''  return 0.5f; // placeholder'']" 2 "''function foo() {''"] l nd
  have "extract_function_name (''function foo() {'' # [''  return 0.5f; // placeholder'']) 2 =
     Inr ''Unknown function''" by blast
  with l n d show ?thesis by blast
qed

section \<open>The scanner's results\<close>

text \<open>
  C8.  When the scanner returns, every line of a qualifying file (a source file in a
  directory that is not skipped) that contains \<open>return 0.5f; // placeholder\<close> gives a
  violation of kind \<open>hardcoded_placeholder\<close> with the number of that line; and for a
  file whose only content is \<open>return 0.5f;\<close>, with or without a final newline, the
  scanner returns no violation at all.
\<close>

theorem scanner_placeholder:
  "(find_violations d wk = Inr vs \<and> (root, dirs, files) \<in> set wk \<and> \<not> skipped_root root \<and>
    f \<in> set files \<and> source_file f \<and> d (path_join root f) = Some content \<and>
    i < length (readlines content) \<and>
    readlines content ! i = pre @ ''return 0.5f; // placeholder'' @ post \<longrightarrow>
      \<lparr>v_file = path_join root f, v_line = int i + 1, v_type = ''hardcoded_placeholder'',
       v_content = strip (readlines content ! i)\<rparr> \<in> set vs) \<and>
   (d (path_join root f) = Some content \<and>
    (content = ''return 0.5f;'' \<or> content = ''return 0.5f;'' @ [NL]) \<longrightarrow>
      find_violations d [(root, dirs, [f])] = Inr [])"
proof -
  have found: "\<lparr>v_file = path_join root f, v_line = int i + 1, v_type = ''hardcoded_placeholder'',
       v_content = strip (readlines content ! i)\<rparr> \<in> set vs"
    if fv: "find_violations d wk = Inr vs" and mem: "(root, dirs, files) \<in> set wk"
      and ns: "\<not> skipped_root root" and f: "f \<in> set files" "source_file f"
      and c: "d (path_join root f) = Some content" and i: "i < length (readlines content)"
      and l: "readlines content ! i = pre @ ''return 0.5f; // placeholder'' @ post"
  proof -
    let ?v = "\<lparr>v_file = path_join root f, v_line = int i + 1, v_type = ''hardcoded_placeholder'',
       v_content = strip (readlines content ! i)\<rparr>"
    from placeholder_found[of pre post] l
    have "re_search (seqs [lit ''return'', Plus Space, lit ''0.5f'', Star Space, Lit (CHR '';''),
            Star Dot, lit ''placeholder'']) (readlines content ! i)" by simp
    with placeholder_rule
    have "?v \<in> set (match_rules (path_join root f) i (readlines content ! i) patterns)"
      by (rule match_rules_mem)
    then have "?v \<in> set (match_rules (path_join root f) (0 + i) (readlines content ! i) patterns)"
      by simp
    with i have "?v \<in> set (scan_lines (path_join root f) 0 (readlines content))"
      by (rule scan_lines_mem)
    moreover from find_violations_mem[OF fv mem ns] obtain ws where
      ws: "scan_files d root files = Inr ws" and sub: "set ws \<subseteq> set vs" by blast
    moreover from scan_files_mem[OF ws f c]
    have "set (scan_lines (path_join root f) 0 (readlines content)) \<subseteq> set ws" .
    ultimately show ?thesis by blast
  qed
  have clean: "find_violations d [(root, dirs, [f])] = Inr []"
    if c: "d (path_join root f) = Some content"
      and b: "content = ''return 0.5f;'' \<or> content = ''return 0.5f;'' @ [NL]"
    using c bare_return_lines[OF b, of "path_join root f"] by simp
  from found clean show ?thesis by blast
qed

theorem scanner_placeholder_witness:
  "find_violations (\<lambda>p. Some (''  return 0.5f; // placeholder'' @ [NL])) [(''src'', [], [''a.cpp''])] =
     Inr [\<lparr>v_file = ''src/a.cpp'', v_line = 1, v_type = ''hardcoded_placeholder'',
           v_content = ''return 0.5f; // placeholder''\<rparr>] \<and>
   \<not> skipped_root ''src'' \<and> source_file ''a.cpp'' \<and>
   readlines (''  return 0.5f; // placeholder'' @ [NL]) ! 0 =
     ''  '' @ ''return 0.5f; // placeholder'' @ [NL] \<and>
   \<lparr>v_file = path_join ''src'' ''a.cpp'', v_line = int 0 + 1, v_type = ''hardcoded_placeholder'',
    v_content = strip (readlines (''  return 0.5f; // placeholder'' @ [NL]) ! 0)\<rparr>
     \<in> set [\<lparr>v_file = ''src/a.cpp'', v_line = 1, v_type = ''hardcoded_placeholder'',
           v_content = ''return 0.5f; // placeholder''\<rparr>] \<and>
   find_violations (\<lambda>p. Some ''return 0.5f;'') [(''src'', [], [''a.cpp''])] = Inr []"
proof -
  let ?c = "''  return 0.5f; // placeholder'' @ [NL]"
  let ?d = "\<lambda>p::string. Some ?c"
  let ?v = "\<lparr>v_file = ''src/a.cpp'', v_line = 1, v_type = ''hardcoded_placeholder'',
           v_content = ''return 0.5f; // placeholder''\<rparr>"
  have fv: "find_violations ?d [(''src'', [], [''a.cpp''])] = Inr [?v]" by code_simp
  have ns: "\<not> skipped_root ''src''" by code_simp
  have sf: "source_file ''a.cpp''" by code_simp
  have ln: "readlines ?c ! 0 = ''  '' @ ''return 0.5f; // placeholder'' @ [NL]" by code_simp
  have len: "0 < length (readlines ?c)" by code_simp
  have "\<lparr>v_file = path_join ''src'' ''a.cpp'', v_line = int 0 + 1, v_type = ''hardcoded_placeholder'',
         v_content = strip (readlines ?c ! 0)\<rparr> \<in> set [?v]"
    using scanner_placeholder[of ?d "[(''src'', [], [''a.cpp''])]" "[?v]" "''src''" "[]" "[''a.cpp'']"
        "''a.cpp''" ?c 0 "''  ''" "[NL]", THEN conjunct1] fv ns sf ln len
    by simp
  moreover have "find_violations (\<lambda>p. Some ''return 0.5f;'') [(''src'', [], [''a.cpp''])] = Inr []"
    using scanner_placeholder[of "\<lambda>p. Some ''return 0.5f;''" _ _ "''src''" "[]" _ "''a.cpp''"
        "''return 0.5f;''", THEN conjunct2]
    by simp
  ultimately show ?thesis using fv ns sf ln by blast
qed

text \<open>
  C6.  When a file that the scanner opens cannot be read, \<open>find_violations\<close> raises the
  error of an unreadable file, and a run that has its credential ends with that error
  uncaught: the disk is as it was (neither output file is written), the service was never
  called, and only the start of the scan was printed.
\<close>

theorem unreadable_file_aborts_run:
  assumes "(root, dirs, files) \<in> set wk" and "\<not> skipped_root root" and "f \<in> set files"
    and "source_file f" and "d (path_join root f) = None"
    and "env ''ANTHROPIC_API_KEY'' = Some api_key" and "api_key \<noteq> []"
  shows "\<exists>p. d p = None \<and> find_violations d wk = Inl (OSError p) \<and>
           main env wk sv json_dump d =
             (Raised (OSError p),
              \<lparr>w_disk = d, self_violations = [], self_fixes = [], console = [ScanStart],
               requests = []\<rparr>)"
proof -
  from find_violations_fail[of root dirs files wk f d] assms(1,2,3,4,5) obtain p where
    p: "d p = None" "find_violations d wk = Inl (OSError p)" by blast
  with assms(6,7) have "main env wk sv json_dump d =
             (Raised (OSError p),
              \<lparr>w_disk = d, self_violations = [], self_fixes = [], console = [ScanStart],
               requests = []\<rparr>)"
    by (simp add: main_def say_def)
  with p show ?thesis by blast
qed

theorem unreadable_file_aborts_run_witness:
  "(''src'', [], [''a.cpp'']) \<in> set [(''src'', [], [''a.cpp''])] \<and> \<not> skipped_root ''src'' \<and>
   ''a.cpp'' \<in> set [''a.cpp''] \<and> source_file ''a.cpp'' \<and>
   (\<lambda>p::string. None :: string option) (path_join ''src'' ''a.cpp'') = None \<and>
   (\<lambda>k::string. Some ''secret'') ''ANTHROPIC_API_KEY'' = Some ''secret'' \<and> ''secret'' \<noteq> [] \<and>
   (\<exists>p. find_violations (\<lambda>p. None) [(''src'', [], [''a.cpp''])] = Inl (OSError p) \<and>
      main (\<lambda>k. Some ''secret'') [(''src'', [], [''a.cpp''])] (\<lambda>k p. Inr []) (\<lambda>r. []) (\<lambda>p. None) =
        (Raised (OSError p),
         \<lparr>w_disk = (\<lambda>p. None), self_violations = [], self_fixes = [], console = [ScanStart],
          requests = []\<rparr>))"
proof -
  have ns: "\<not> skipped_root ''src''" by code_simp
  have sf: "source_file ''a.cpp''" by code_simp
  from unreadable_file_aborts_run[of "''src''" "[]" "[''a.cpp'']" "[(''src'', [], [''a.cpp''])]"
      "''a.cpp''" "\<lambda>p. None" "\<lambda>k. Some ''secret''" "''secret''" "\<lambda>k p. Inr []" "\<lambda>r. []"] ns sf
  have "\<exists>p. find_violations (\<lambda>p. None) [(''src'', [], [''a.cpp''])] = Inl (OSError p) \<and>
      main (\<lambda>k. Some ''secret'') [(''src'', [], [''a.cpp''])] (\<lambda>k p. Inr []) (\<lambda>r. []) (\<lambda>p. None) =
        (Raised (OSError p),
         \<lparr>w_disk = (\<lambda>p. None), self_violations = [], self_fixes = [], console = [ScanStart],
          requests = []\<rparr>)"
    by simp
  with ns sf show ?thesis by simp
qed

section \<open>The fix recorder\<close>

text \<open>
  C4, as amended.  A call of \<open>apply_fix\<close> on a file that can be read, with a line number
  from 1 to the number of fields of the content split at newlines, returns \<open>True\<close> and
  appends the record of the file, the line number, the original line and the generated
  text to the list of fixes; for a line number of the file as \<open>readlines\<close> counts its
  lines, the original line is that line without its newline.  A call that raises leaves
  the state as it was, and no call changes a file on disk.
\<close>

theorem apply_fix_records:
  "(w_disk w filepath = Some content \<and> 1 \<le> line_num \<and>
    line_num \<le> int (length (split_nl content)) \<longrightarrow>
      apply_fix filepath line_num new_implementation w =
        (Inr True,
         w\<lparr>self_fixes := self_fixes w @
              [\<lparr>f_file = filepath, f_line = line_num,
                f_original = split_nl content ! nat (line_num - 1),
                f_fixed = new_implementation\<rparr>]\<rparr>)) \<and>
   (1 \<le> line_num \<and> line_num \<le> int (length (readlines content)) \<longrightarrow>
      line_num \<le> int (length (split_nl content)) \<and>
      (readlines content ! nat (line_num - 1) = split_nl content ! nat (line_num - 1) @ [NL] \<or>
       readlines content ! nat (line_num - 1) = split_nl content ! nat (line_num - 1))) \<and>
   ((\<exists>e. fst (apply_fix filepath line_num new_implementation w) = Inl e) \<longrightarrow>
      snd (apply_fix filepath line_num new_implementation w) = w) \<and>
   w_disk (snd (apply_fix filepath line_num new_implementation w)) = w_disk w"
proof -
  have a: "apply_fix filepath line_num new_implementation w =
        (Inr True,
         w\<lparr>self_fixes := self_fixes w @
              [\<lparr>f_file = filepath, f_line = line_num,
                f_original = split_nl content ! nat (line_num - 1),
                f_fixed = new_implementation\<rparr>]\<rparr>)"
    if "w_disk w filepath = Some content" "1 \<le> line_num"
       "line_num \<le> int (length (split_nl content))"
    using that by (simp add: apply_fix_def py_index_in_range)
  have b: "snd (apply_fix filepath line_num new_implementation w) = w"
    if "\<exists>e. fst (apply_fix filepath line_num new_implementation w) = Inl e"
    using that by (auto simp: apply_fix_def split: option.splits sum.splits)
  have c: "w_disk (snd (apply_fix filepath line_num new_implementation w)) = w_disk w"
    by (simp add: apply_fix_def split: option.splits sum.splits)
  from a b c readlines_split_nl[of line_num content] show ?thesis by blast
qed

theorem apply_fix_records_witness:
  "apply_fix ''a.cpp'' 2 ''return rms(x);''
     \<lparr>w_disk = (\<lambda>p. Some (''float f() {'' @ [NL] @ ''  return 0.5f; // placeholder'' @ [NL] @ ''}'' @ [NL])),
      self_violations = [], self_fixes = [], console = [], requests = []\<rparr> =
   (Inr True,
    \<lparr>w_disk = (\<lambda>p. Some (''float f() {'' @ [NL] @ ''  return 0.5f; // placeholder'' @ [NL] @ ''}'' @ [NL])),
      self_violations = [],
      self_fixes = [\<lparr>f_file = ''a.cpp'', f_line = 2, f_original = ''  return 0.5f; // placeholder'',
                     f_fixed = ''return rms(x);''\<rparr>],
      console = [], requests = []\<rparr>) \<and>
   (2::int) \<le> int (length (readlines (''float f() {'' @ [NL] @ ''  return 0.5f; // placeholder'' @ [NL] @ ''}'' @ [NL]))) \<and>
   (2::int) \<le> int (length (split_nl (''float f() {'' @ [NL] @ ''  return 0.5f; // placeholder'' @ [NL] @ ''}'' @ [NL]))) \<and>
   fst (apply_fix ''gone.cpp'' 1 ''x''
     \<lparr>w_disk = (\<lambda>p. None), self_violations = [], self_fixes = [], console = [], requests = []\<rparr>) =
     Inl (OSError ''gone.cpp'') \<and>
   self_fixes (snd (apply_fix ''gone.cpp'' 1 ''x''
     \<lparr>w_disk = (\<lambda>p. None), self_violations = [], self_fixes = [], console = [], requests = []\<rparr>)) = []"
proof -
  let ?c = "''float f() {'' @ [NL] @ ''  return 0.5f; // placeholder'' @ [NL] @ ''}'' @ [NL]"
  let ?w = "\<lparr>w_disk = (\<lambda>p::string. Some ?c), self_violations = [], self_fixes = [], console = [],
             requests = []\<rparr>"
  let ?u = "\<lparr>w_disk = (\<lambda>p::string. None), self_violations = [], self_fixes = [], console = [],
             requests = []\<rparr>"
  have rl: "(2::int) \<le> int (length (readlines ?c))" by code_simp
  have sl: "(2::int) \<le> int (length (split_nl ?c))"
    using apply_fix_records[of ?w "''a.cpp''" ?c 2 "''return rms(x);''", THEN conjunct2, THEN conjunct1] rl
    by simp
  have orig: "split_nl ?c ! nat (2 - 1) = ''  return 0.5f; // placeholder''" by code_simp
  have ok: "apply_fix ''a.cpp'' 2 ''return rms(x);'' ?w =
      (Inr True, ?w\<lparr>self_fixes := self_fixes ?w @
              [\<lparr>f_file = ''a.cpp'', f_line = 2, f_original = split_nl ?c ! nat (2 - 1),
                f_fixed = ''return rms(x);''\<rparr>]\<rparr>)"
    using apply_fix_records[of ?w "''a.cpp''" ?c 2 "''return rms(x);''", THEN conjunct1] sl
    by simp
  have e: "fst (apply_fix ''gone.cpp'' 1 ''x'' ?u) = Inl (OSError ''gone.cpp'')"
    by (simp add: apply_fix_def)
  then have "snd (apply_fix ''gone.cpp'' 1 ''x'' ?u) = ?u"
    using apply_fix_records[of ?u "''gone.cpp''" _ 1 "''x''", THEN conjunct2, THEN conjunct2, THEN conjunct1]
    by blast
  then have u: "self_fixes (snd (apply_fix ''gone.cpp'' 1 ''x'' ?u)) = []" by simp
  from ok orig rl sl e u show ?thesis by simp
qed

text \<open>
  C4 as stated fails for a file that cannot be opened: the call raises and no record is
  appended.
\<close>

theorem apply_fix_counterexample:
  "apply_fix ''gone.cpp'' 1 ''return rms(x);''
     \<lparr>w_disk = (\<lambda>p. None), self_violations = [], self_fixes = [], console = [], requests = []\<rparr> =
   (Inl (OSError ''gone.cpp''),
    \<lparr>w_disk = (\<lambda>p. None), self_violations = [], self_fixes = [], console = [], requests = []\<rparr>)"
  by (simp add: apply_fix_def)

section \<open>Processing the violations\<close>

text \<open>
  C5.  When the context of a violation has been extracted and the call of the
  text-generation service raises an error, the body of the loop ends normally: the error
  is printed, the prompt is counted as sent, the list of fixes and the disk are as they
  were, and the loop goes on with the next violation.
\<close>

theorem service_error_skips_violation:
  assumes "analyze_code_context (w_disk w) (v_file v) (v_line v) = Inr ctx"
    and "sv (length (requests w)) (prompt_of ctx) = Inl e"
  shows "process_violation sv i n v w =
           (Inr (),
            w\<lparr>console := console w @
                 [Processing (i + 1) n, FileLine (v_file v) (v_line v), TypeLine (v_type v),
                  Generating, FixError e],
              requests := requests w @ [prompt_of ctx]\<rparr>) \<and>
         self_fixes (snd (process_violation sv i n v w)) = self_fixes w \<and>
         w_disk (snd (process_violation sv i n v w)) = w_disk w \<and>
         process_all sv i n (v # vs) w =
           process_all sv (Suc i) n vs (snd (process_violation sv i n v w))"
proof -
  from assms have pv: "process_violation sv i n v w =
           (Inr (),
            w\<lparr>console := console w @
                 [Processing (i + 1) n, FileLine (v_file v) (v_line v), TypeLine (v_type v),
                  Generating, FixError e],
              requests := requests w @ [prompt_of ctx]\<rparr>)"
    by (simp add: process_violation_def generate_fix_with_ai_def say_def)
  then show ?thesis by simp
qed

theorem service_error_skips_violation_witness:
  "analyze_code_context
     (w_disk \<lparr>w_disk = (\<lambda>p. Some (''return 0.5f; // placeholder'' @ [NL])), self_violations = [],
              self_fixes = [], console = [], requests = []\<rparr>)
     (v_file \<lparr>v_file = ''a.cpp'', v_line = 1, v_type = ''hardcoded_placeholder'',
              v_content = ''return 0.5f; // placeholder''\<rparr>)
     (v_line \<lparr>v_file = ''a.cpp'', v_line = 1, v_type = ''hardcoded_placeholder'',
              v_content = ''return 0.5f; // placeholder''\<rparr>) =
     Inr \<lparr>ctx_file = ''a.cpp'', ctx_line = 1,
          ctx_context = ''return 0.5f; // placeholder'' @ [NL],
          ctx_function = ''Unknown function'',
          ctx_violation_line = ''return 0.5f; // placeholder''\<rparr> \<and>
   self_fixes (snd (process_violation (\<lambda>k p. Inl (ServiceError ''quota'')) 0 1
     \<lparr>v_file = ''a.cpp'', v_line = 1, v_type = ''hardcoded_placeholder'',
      v_content = ''return 0.5f; // placeholder''\<rparr>
     \<lparr>w_disk = (\<lambda>p. Some (''return 0.5f; // placeholder'' @ [NL])), self_violations = [],
      self_fixes = [], console = [], requests = []\<rparr>)) = [] \<and>
   console (snd (process_violation (\<lambda>k p. Inl (ServiceError ''quota'')) 0 1
     \<lparr>v_file = ''a.cpp'', v_line = 1, v_type = ''hardcoded_placeholder'',
      v_content = ''return 0.5f; // placeholder''\<rparr>
     \<lparr>w_disk = (\<lambda>p. Some (''return 0.5f; // placeholder'' @ [NL])), self_violations = [],
      self_fixes = [], console = [], requests = []\<rparr>)) =
     [Processing 1 1, FileLine ''a.cpp'' 1, TypeLine ''hardcoded_placeholder'', Generating,
      FixError (ServiceError ''quota'')]"
proof -
  let ?w = "\<lparr>w_disk = (\<lambda>p::string. Some (''return 0.5f; // placeholder'' @ [NL])),
             self_violations = [], self_fixes = [], console = [], requests = []\<rparr>"
  let ?v = "\<lparr>v_file = ''a.cpp'', v_line = 1, v_type = ''hardcoded_placeholder'',
             v_content = ''return 0.5f; // placeholder''\<rparr>"
  let ?ctx = "\<lparr>ctx_file = ''a.cpp'', ctx_line = 1,
          ctx_context = ''return 0.5f; // placeholder'' @ [NL],
          ctx_function = ''Unknown function'',
          ctx_violation_line = ''return 0.5f; // placeholder''\<rparr>"
  have a: "analyze_code_context (w_disk ?w) (v_file ?v) (v_line ?v) = Inr ?ctx" by code_simp
  have s: "(\<lambda>k p. Inl (ServiceError ''quota'')) (length (requests ?w)) (prompt_of ?ctx) =
             (Inl (ServiceError ''quota'') :: py_error + string)" by simp
  from service_error_skips_violation[OF a s, of 0 1] a show ?thesis
    by simp
qed

text \<open>
  C3.  A run with its credential whose scan returns the violations \<open>vs\<close> ends
  normally, having called the text-generation service \<open>min 5 (length vs)\<close> times, so 5
  times when there are more than 5 violations.  The report written to
  \<open>ai_fix_report.json\<close> counts all of \<open>vs\<close> as found, while its count of fixes is the
  number of those calls that returned a text, each fix being for one of the first 5
  violations.
\<close>

theorem capped_processing:
  assumes "env ''ANTHROPIC_API_KEY'' = Some api_key" and "api_key \<noteq> []"
    and "find_violations d wk = Inr vs"
  shows "\<exists>w rep. main env wk sv json_dump d = (Returned, w) \<and>
           length (requests w) = min max_fixes (length vs) \<and> max_fixes = 5 \<and>
           w_disk w ''ai_fix_report.json'' = Some (json_dump rep) \<and>
           violations_found rep = length vs \<and> rep_violations rep = vs \<and>
           fixes_applied rep = length (self_fixes w) \<and> rep_fixes rep = self_fixes w \<and>
           length (self_fixes w) =
             length (filter (\<lambda>(k, p). \<not> isl (sv k p)) (enumerate 0 (requests w))) \<and>
           length (self_fixes w) \<le> min max_fixes (length vs) \<and>
           (\<forall>f \<in> set (self_fixes w). \<exists>v \<in> set (take max_fixes vs).
              f_file f = v_file v \<and> f_line f = v_line v)"
proof -
  from main_run[of env api_key d wk vs sv json_dump] assms obtain ps fs ls w where
    m: "main env wk sv json_dump d = (Returned, w)" and rq: "requests w = ps" and
    lp: "length ps = min max_fixes (length vs)" and fx: "self_fixes w = fs" and
    nf: "length fs = length (filter (\<lambda>(k, p). \<not> isl (sv k p)) (enumerate 0 ps))" and
    og: "\<forall>f \<in> set fs. \<exists>v \<in> set (take max_fixes vs). f_file f = v_file v \<and> f_line f = v_line v" and
    dk: "w_disk w = d(''ai_fix_report.json'' \<mapsto>
                          json_dump \<lparr>violations_found = length vs, fixes_applied = length fs,
                                     rep_violations = vs, rep_fixes = fs\<rparr>,
                        ''pr_description.md'' \<mapsto>
                          generate_pr_description
                            \<lparr>w_disk = d(''ai_fix_report.json'' \<mapsto>
                                 json_dump \<lparr>violations_found = length vs, fixes_applied = length fs,
                                            rep_violations = vs, rep_fixes = fs\<rparr>),
                             self_violations = [], self_fixes = fs,
                             console = [ScanStart, FoundCount (length vs)] @ ls, requests = ps\<rparr>)"
    by blast
  let ?rep = "\<lparr>violations_found = length vs, fixes_applied = length fs,
                rep_violations = vs, rep_fixes = fs\<rparr>"
  have rep: "w_disk w ''ai_fix_report.json'' = Some (json_dump ?rep)"
    unfolding dk by simp
  have "length fs \<le> length (enumerate 0 ps)" unfolding nf by (rule filter_length_le)
  then have le: "length fs \<le> min max_fixes (length vs)" using lp by simp
  from m rq lp fx nf og rep le show ?thesis
    by (intro exI[of _ w] exI[of _ ?rep]) (simp add: max_fixes_def)
qed

theorem capped_processing_witness:
  "(\<lambda>k::string. Some ''secret'') ''ANTHROPIC_API_KEY'' = Some ''secret'' \<and> ''secret'' \<noteq> [] \<and>
   (\<exists>vs. find_violations
            (\<lambda>p. Some (''// TODO: simplified Math.random()'' @ [NL] @
                        ''// FIXME: Simplified Math.random()'' @ [NL]))
            [(''src'', [], [''a.js''])] = Inr vs \<and> length vs = 6) \<and>
   (\<exists>w (rep::report).
      main (\<lambda>k. Some ''secret'') [(''src'', [], [''a.js''])]
           (\<lambda>k p. if k = 0 then Inl (ServiceError ''quota'') else Inr ''return rms(x);'')
           (\<lambda>r. str_nat (violations_found r) @ '','' @ str_nat (fixes_applied r))
           (\<lambda>p. Some (''// TODO: simplified Math.random()'' @ [NL] @
                       ''// FIXME: Simplified Math.random()'' @ [NL])) = (Returned, w) \<and>
      length (requests w) = 5 \<and>
      w_disk w ''ai_fix_report.json'' =
        Some ((\<lambda>r. str_nat (violations_found r) @ '','' @ str_nat (fixes_applied r)) rep) \<and>
      violations_found rep = 6 \<and> fixes_applied rep = length (self_fixes w) \<and>
      length (self_fixes w) \<le> 5) \<and>
   w_disk (snd (main (\<lambda>k. Some ''secret'') [(''src'', [], [''a.js''])]
           (\<lambda>k p. if k = 0 then Inl (ServiceError ''quota'') else Inr ''return rms(x);'')
           (\<lambda>r. str_nat (violations_found r) @ '','' @ str_nat (fixes_applied r))
           (\<lambda>p. Some (''// TODO: simplified Math.random()'' @ [NL] @
                       ''// FIXME: Simplified Math.random()'' @ [NL])))) ''ai_fix_report.json'' =
     Some ''6,4''"
proof -
  let ?c = "''// TODO: simplified Math.random()'' @ [NL] @ ''// FIXME: Simplified Math.random()'' @ [NL]"
  let ?d = "\<lambda>p::string. Some ?c"
  let ?wk = "[(''src'', [], [''a.js''])]"
  let ?env = "\<lambda>k::string. Some ''secret''"
  let ?sv = "\<lambda>(k::nat) (p::string). if k = 0 then Inl (ServiceError ''quota'') else Inr ''return rms(x);''"
  let ?jd = "\<lambda>r. str_nat (violations_found r) @ '','' @ str_nat (fixes_applied r)"
  let ?vs = "[\<lparr>v_file = ''src/a.js'', v_line = 1, v_type = ''todo_comment'',
               v_content = ''// TODO: simplified Math.random()''\<rparr>,
              \<lparr>v_file = ''src/a.js'', v_line = 1, v_type = ''simplified_implementation'',
               v_content = ''// TODO: simplified Math.random()''\<rparr>,
              \<lparr>v_file = ''src/a.js'', v_line = 1, v_type = ''random_data_generation'',
               v_content = ''// TODO: simplified Math.random()''\<rparr>,
              \<lparr>v_file = ''src/a.js'', v_line = 2, v_type = ''todo_comment'',
               v_content = ''// FIXME: Simplified Math.random()''\<rparr>,
              \<lparr>v_file = ''src/a.js'', v_line = 2, v_type = ''simplified_implementation'',
               v_content = ''// FIXME: Simplified Math.random()''\<rparr>,
              \<lparr>v_file = ''src/a.js'', v_line = 2, v_type = ''random_data_generation'',
               v_content = ''// FIXME: Simplified Math.random()''\<rparr>]"
  have fv: "find_violations ?d ?wk = Inr ?vs" by code_simp
  have k: "?env ''ANTHROPIC_API_KEY'' = Some ''secret''" by simp
  have ne: "''secret'' \<noteq> []" by simp
  from capped_processing[of ?env "''secret''" ?d ?wk ?vs ?sv ?jd, OF k ne fv]
  obtain w and rep :: report where
    m: "main ?env ?wk ?sv ?jd ?d = (Returned, w)"
    and r: "length (requests w) = min max_fixes (length ?vs)" and c: "max_fixes = 5"
    and j: "w_disk w ''ai_fix_report.json'' = Some (?jd rep)"
    and v: "violations_found rep = length ?vs"
    and f: "fixes_applied rep = length (self_fixes w)"
    and l: "length (self_fixes w) \<le> min max_fixes (length ?vs)"
    by blast
  from r c have r': "length (requests w) = 5" by simp
  from v have v': "violations_found rep = 6" by simp
  from l c have l': "length (self_fixes w) \<le> 5" by simp
  from m r' j v' f l'
  have ex: "\<exists>w (rep::report). main ?env ?wk ?sv ?jd ?d = (Returned, w) \<and> length (requests w) = 5 \<and>
      w_disk w ''ai_fix_report.json'' = Some (?jd rep) \<and>
      violations_found rep = 6 \<and> fixes_applied rep = length (self_fixes w) \<and>
      length (self_fixes w) \<le> 5"
    by blast
  have rep: "w_disk (snd (main ?env ?wk ?sv ?jd ?d)) ''ai_fix_report.json'' = Some ''6,4''"
    by code_simp
  from fv have "\<exists>vs. find_violations ?d ?wk = Inr vs \<and> length vs = 6" by simp
  with ex rep show ?thesis by simp
qed

section \<open>The credential\<close>

text \<open>
  C7, as amended.  With \<open>ANTHROPIC_API_KEY\<close> missing from the environment or empty,
  the run prints the error and exits with code 1, and nothing else happens: the result does
  not depend on the directory listing, the service or the disk, which is left as it was.
  With a key that is not empty the scan starts; the run ends normally, with exit code 0,
  when the scan returns, and with the scan's error uncaught otherwise.
\<close>

theorem credential_gate:
  "((env ''ANTHROPIC_API_KEY'' = None \<or> env ''ANTHROPIC_API_KEY'' = Some []) \<longrightarrow>
      main env wk sv json_dump d =
        (SysExit 1,
         \<lparr>w_disk = d, self_violations = [], self_fixes = [], console = [MissingKey],
          requests = []\<rparr>) \<and>
      exit_code (fst (main env wk sv json_dump d)) = 1) \<and>
   (env ''ANTHROPIC_API_KEY'' = Some api_key \<and> api_key \<noteq> [] \<longrightarrow>
      hd (console (snd (main env wk sv json_dump d))) = ScanStart \<and>
      (case find_violations d wk of
         Inl e \<Rightarrow> fst (main env wk sv json_dump d) = Raised e
       | Inr vs \<Rightarrow> fst (main env wk sv json_dump d) = Returned \<and>
                  exit_code (fst (main env wk sv json_dump d)) = 0))"
proof -
  have a: "main env wk sv json_dump d =
        (SysExit 1,
         \<lparr>w_disk = d, self_violations = [], self_fixes = [], console = [MissingKey],
          requests = []\<rparr>) \<and>
      exit_code (fst (main env wk sv json_dump d)) = 1"
    if "env ''ANTHROPIC_API_KEY'' = None \<or> env ''ANTHROPIC_API_KEY'' = Some []"
    using main_without_key[of env wk sv json_dump d] that by simp
  have b: "hd (console (snd (main env wk sv json_dump d))) = ScanStart \<and>
      (case find_violations d wk of
         Inl e \<Rightarrow> fst (main env wk sv json_dump d) = Raised e
       | Inr vs \<Rightarrow> fst (main env wk sv json_dump d) = Returned \<and>
                  exit_code (fst (main env wk sv json_dump d)) = 0)"
    if k: "env ''ANTHROPIC_API_KEY'' = Some api_key" "api_key \<noteq> []"
  proof (cases "find_violations d wk")
    case (Inl e)
    from main_scan_failed[of env api_key d wk e sv json_dump] k Inl show ?thesis by simp
  next
    case (Inr vs)
    from main_run[of env api_key d wk vs sv json_dump, OF k Inr]
    have "fst (main env wk sv json_dump d) = Returned \<and>
          hd (console (snd (main env wk sv json_dump d))) = ScanStart"
      by (elim exE conjE) simp
    with Inr show ?thesis by auto
  qed
  from a b show ?thesis by blast
qed

theorem credential_gate_witness:
  "(\<lambda>k::string. None :: string option) ''ANTHROPIC_API_KEY'' = None \<and>
   main (\<lambda>k. None) [] (\<lambda>k p. Inr []) (\<lambda>r. []) (\<lambda>p. None) =
     (SysExit 1,
      \<lparr>w_disk = (\<lambda>p. None), self_violations = [], self_fixes = [], console = [MissingKey],
       requests = []\<rparr>) \<and>
   (\<lambda>k::string. Some ''secret'') ''ANTHROPIC_API_KEY'' = Some ''secret'' \<and> ''secret'' \<noteq> [] \<and>
   find_violations (\<lambda>p. None) [] = Inr [] \<and>
   fst (main (\<lambda>k. Some ''secret'') [] (\<lambda>k p. Inr []) (\<lambda>r. []) (\<lambda>p. None)) = Returned \<and>
   exit_code (fst (main (\<lambda>k. Some ''secret'') [] (\<lambda>k p. Inr []) (\<lambda>r. []) (\<lambda>p. None))) = 0"
proof -
  have a: "main (\<lambda>k. None) [] (\<lambda>k p. Inr []) (\<lambda>r. []) (\<lambda>p. None) =
     (SysExit 1,
      \<lparr>w_disk = (\<lambda>p. None), self_violations = [], self_fixes = [], console = [MissingKey],
       requests = []\<rparr>)"
    using credential_gate[of "\<lambda>k. None" "[]" "\<lambda>k p. Inr []" "\<lambda>r. []" "\<lambda>p. None", THEN conjunct1]
    by simp
  have fv: "find_violations (\<lambda>p. None) [] = Inr []" by simp
  have b: "fst (main (\<lambda>k. Some ''secret'') [] (\<lambda>k p. Inr []) (\<lambda>r. []) (\<lambda>p. None)) = Returned \<and>
   exit_code (fst (main (\<lambda>k. Some ''secret'') [] (\<lambda>k p. Inr []) (\<lambda>r. []) (\<lambda>p. None))) = 0"
    using credential_gate[of "\<lambda>k. Some ''secret''" "[]" "\<lambda>k p. Inr []" "\<lambda>r. []" "\<lambda>p. None" "''secret''",
        THEN conjunct2]
    by (simp add: fv)
  from a b fv show ?thesis by simp
qed

text \<open>
  C7 as stated fails for a key that is present and empty: \<open>if not api_key\<close> treats it
  as missing, and the run exits with code 1.
\<close>

theorem credential_gate_counterexample:
  "(\<lambda>k. if k = ''ANTHROPIC_API_KEY'' then Some [] else None) ''ANTHROPIC_API_KEY'' \<noteq> None \<and>
   main (\<lambda>k. if k = ''ANTHROPIC_API_KEY'' then Some [] else None) []
        (\<lambda>k p. Inr []) (\<lambda>r. []) (\<lambda>p. None) =
     (SysExit 1,
      \<lparr>w_disk = (\<lambda>p. None), self_violations = [], self_fixes = [], console = [MissingKey],
       requests = []\<rparr>)"
  by (simp add: main_def say_def)

end
